theory Spec2Isabelle
  imports Complex_Main
begin

section \<open>Request values\<close>

text \<open>
  Sessions reach the server as part of a request body that \<^verbatim>\<open>express.json\<close> has parsed
  (server.ts, line 18), so a session is whatever \<^verbatim>\<open>JSON.parse\<close> can produce, or
  \<^verbatim>\<open>undefined\<close> when the body has no such field. Numbers are the finite values and the two
  infinities (\<^verbatim>\<open>JSON.parse("1e999")\<close>); \<^verbatim>\<open>NaN\<close> is not a JSON value and is never
  produced by the parser. An object is an association list, read with the first binding of a
  key.
\<close>

datatype jsnum = Finite rat | PosInfinity | NegInfinity

datatype json =
    JUndefined
  | JNull
  | JBool bool
  | JNum jsnum
  | JStr string
  | JArr "json list"
  | JObj "(string \<times> json) list"

text \<open>The result of \<^verbatim>\<open>typeof v\<close>.\<close>

fun typeof :: "json \<Rightarrow> string" where
  "typeof JUndefined = ''undefined''"
| "typeof JNull = ''object''"
| "typeof (JBool b) = ''boolean''"
| "typeof (JNum n) = ''number''"
| "typeof (JStr s) = ''string''"
| "typeof (JArr vs) = ''object''"
| "typeof (JObj kvs) = ''object''"

text \<open>Truthiness: what \<^verbatim>\<open>!v\<close> negates.\<close>

fun truthy :: "json \<Rightarrow> bool" where
  "truthy JUndefined = False"
| "truthy JNull = False"
| "truthy (JBool b) = b"
| "truthy (JNum (Finite q)) = (q \<noteq> 0)"
| "truthy (JNum PosInfinity) = True"
| "truthy (JNum NegInfinity) = True"
| "truthy (JStr s) = (s \<noteq> [])"
| "truthy (JArr vs) = True"
| "truthy (JObj kvs) = True"

text \<open>
  Property access \<^verbatim>\<open>v.k\<close> for the keys the validators read (\<^verbatim>\<open>user\<close>, \<^verbatim>\<open>id\<close>,
  \<^verbatim>\<open>token\<close>, \<^verbatim>\<open>expires\<close>): an object yields its binding or \<^verbatim>\<open>undefined\<close>; an array,
  a string, a number or a boolean has no such property. The validators read a property only
  of a value they have found truthy, so the access never throws.
\<close>

fun get_prop :: "json \<Rightarrow> string \<Rightarrow> json" where
  "get_prop (JObj kvs) k = (case map_of kvs k of None \<Rightarrow> JUndefined | Some v \<Rightarrow> v)"
| "get_prop v k = JUndefined"

text \<open>\<^verbatim>\<open>x <= Date.now()\<close> for a number \<open>x\<close>; the clock is an integer of milliseconds.\<close>

fun num_le_time :: "jsnum \<Rightarrow> int \<Rightarrow> bool" where
  "num_le_time (Finite q) now = (q \<le> of_int now)"
| "num_le_time PosInfinity now = False"
| "num_le_time NegInfinity now = True"

text \<open>\<^verbatim>\<open>x > now\<close>, the comparison the specification speaks of.\<close>

fun num_gt_time :: "jsnum \<Rightarrow> int \<Rightarrow> bool" where
  "num_gt_time (Finite q) now = (of_int now < q)"
| "num_gt_time PosInfinity now = True"
| "num_gt_time NegInfinity now = False"

text \<open>The string a template literal inserts for a value that is a string.\<close>

fun str_of :: "json \<Rightarrow> string" where
  "str_of (JStr s) = s"
| "str_of v = []"

section \<open>Session validation\<close>

text \<open>
  Both validators return their verdict together with the warning they log
  (\<^verbatim>\<open>console.warn\<close>), at most one per call. \<open>now\<close> is the value of \<^verbatim>\<open>Date.now()\<close>.
\<close>

text \<open>The validator local to api/comments.ts (lines 23 to 45).\<close>

definition validateSession :: "int \<Rightarrow> json \<Rightarrow> bool \<times> string list" where
  "validateSession now session =
    (if \<not> truthy session \<or> typeof session \<noteq> ''object'' then
       (False, [''Comments Auth failed: Session is missing or not an object.''])
     else if \<not> truthy (get_prop session ''user'') \<or> typeof (get_prop session ''user'') \<noteq> ''object''
            \<or> typeof (get_prop (get_prop session ''user'') ''id'') \<noteq> ''string''
            \<or> \<not> truthy (get_prop (get_prop session ''user'') ''id'') then
       (False, [''Comments Auth failed: Invalid or missing user.id in session.''])
     else if typeof (get_prop session ''token'') \<noteq> ''string'' \<or> \<not> truthy (get_prop session ''token'') then
       (False, [''Comments Auth failed: Invalid or missing token in session.''])
     else if typeof (get_prop session ''expires'') \<noteq> ''number'' then
       (False, [''Comments Auth failed: Invalid or missing expiration in session.''])
     else if (case get_prop session ''expires'' of JNum e \<Rightarrow> num_le_time e now | _ \<Rightarrow> False) then
       (False, [''Comments Auth failed: Expired session for user ''
                  @ str_of (get_prop (get_prop session ''user'') ''id'') @ ''.''])
     else (True, []))"

text \<open>The exported validator of the auth module (lines 27 to 49 there), used by server.ts.\<close>

definition auth_validateSession :: "int \<Rightarrow> json \<Rightarrow> bool \<times> string list" where
  "auth_validateSession now session =
    (if \<not> truthy session \<or> typeof session \<noteq> ''object'' then
       (False, [''Auth failed: Session is missing or not an object.''])
     else if \<not> truthy (get_prop session ''user'') \<or> typeof (get_prop session ''user'') \<noteq> ''object''
            \<or> typeof (get_prop (get_prop session ''user'') ''id'') \<noteq> ''string''
            \<or> \<not> truthy (get_prop (get_prop session ''user'') ''id'') then
       (False, [''Auth failed: Invalid or missing user.id in session.''])
     else if typeof (get_prop session ''token'') \<noteq> ''string'' \<or> \<not> truthy (get_prop session ''token'') then
       (False, [''Auth failed: Invalid or missing token in session.''])
     else if typeof (get_prop session ''expires'') \<noteq> ''number'' then
       (False, [''Auth failed: Invalid or missing expiration in session.''])
     else if (case get_prop session ''expires'' of JNum e \<Rightarrow> num_le_time e now | _ \<Rightarrow> False) then
       (False, [''Auth failed: Expired session for user ''
                  @ str_of (get_prop (get_prop session ''user'') ''id'') @ ''.''])
     else (True, []))"

text \<open>
  What the specification asks of a session: a non-null object, with a non-empty string token,
  a user sub-object with a non-empty string id, and a numeric expiry.
\<close>

definition is_object :: "json \<Rightarrow> bool" where
  "is_object v = (case v of JObj kvs \<Rightarrow> True | JArr vs \<Rightarrow> True | _ \<Rightarrow> False)"

definition nonempty_string :: "json \<Rightarrow> bool" where
  "nonempty_string v = (case v of JStr s \<Rightarrow> s \<noteq> [] | _ \<Rightarrow> False)"

definition is_number :: "json \<Rightarrow> bool" where
  "is_number v = (case v of JNum e \<Rightarrow> True | _ \<Rightarrow> False)"

definition structurally_valid :: "json \<Rightarrow> bool" where
  "structurally_valid session =
    (is_object session \<and> nonempty_string (get_prop session ''token'')
     \<and> is_object (get_prop session ''user'') \<and> nonempty_string (get_prop (get_prop session ''user'') ''id'')
     \<and> is_number (get_prop session ''expires''))"

definition not_expired :: "int \<Rightarrow> json \<Rightarrow> bool" where
  "not_expired now session =
    (case get_prop session ''expires'' of JNum e \<Rightarrow> num_gt_time e now | _ \<Rightarrow> False)"

section \<open>Rate limiter\<close>

text \<open>
  server.ts, lines 21 to 33. \<open>userRequests\<close> is the module's map from user id to the
  timestamps of the requests admitted for that user; it is passed in and returned.
\<close>

type_synonym userRequests = "string \<rightharpoonup> int list"

definition RATE_LIMIT_WINDOW_MS :: int where
  "RATE_LIMIT_WINDOW_MS = 60 * 1000"

definition MAX_REQUESTS_PER_WINDOW :: nat where
  "MAX_REQUESTS_PER_WINDOW = 20"

definition checkRateLimit :: "int \<Rightarrow> userRequests \<Rightarrow> string \<Rightarrow> bool \<times> userRequests" where
  "checkRateLimit now userRequests userId =
    (let timestamps = (case userRequests userId of None \<Rightarrow> [] | Some ts \<Rightarrow> ts);
         recentTimestamps = filter (\<lambda>t. now - t < RATE_LIMIT_WINDOW_MS) timestamps
     in if length recentTimestamps \<ge> MAX_REQUESTS_PER_WINDOW then (True, userRequests)
        else (False, userRequests(userId \<mapsto> recentTimestamps @ [now])))"

text \<open>
  A run of checks for one user at the given clock readings, in order: the verdicts
  (\<open>limited\<close>) and the map afterwards.
\<close>

fun checks :: "int list \<Rightarrow> userRequests \<Rightarrow> string \<Rightarrow> bool list \<times> userRequests" where
  "checks [] userRequests userId = ([], userRequests)"
| "checks (now # later) userRequests userId =
    (case checkRateLimit now userRequests userId of
       (limited, userRequests') \<Rightarrow>
         (case checks later userRequests' userId of
            (verdicts, userRequests'') \<Rightarrow> (limited # verdicts, userRequests'')))"

text \<open>
  The two checks that open the downloader endpoint of server.ts (lines 131 to 137; the AI
  proxy has the same pair at lines 82 to 87): the status of the rejection, or \<open>None\<close> when
  the request goes on. Each check reads the clock for itself.
\<close>

definition downloader_guard ::
  "int \<Rightarrow> int \<Rightarrow> userRequests \<Rightarrow> json \<Rightarrow> nat option \<times> userRequests" where
  "downloader_guard now now' userRequests session =
    (if \<not> fst (auth_validateSession now session) then (Some 401, userRequests)
     else case checkRateLimit now' userRequests (str_of (get_prop (get_prop session ''user'') ''id'')) of
            (limited, userRequests') \<Rightarrow>
              if limited then (Some 429, userRequests') else (None, userRequests'))"

section \<open>Comments, users and the document\<close>

text \<open>
  A stored comment, with the fields the add operation writes (api/comments.ts, lines 89 to
  97). \<open>date\<close> is the instant, in milliseconds, that the stored ISO string denotes:
  \<^verbatim>\<open>new Date(c.date).getTime()\<close> gives back what \<^verbatim>\<open>new Date().toISOString()\<close> stored.
  \<open>parentId\<close> is \<open>None\<close> for \<^verbatim>\<open>null\<close>; \<open>rating\<close> is \<open>JUndefined\<close> when the field is
  absent.
\<close>

record comment =
  id_c :: string
  parentId :: "string option"
  reviewer :: string
  userId :: string
  comment_c :: string
  date :: int
  rating :: json

record user =
  id_u :: string
  name_u :: string
  role :: string

text \<open>The payload \<^verbatim>\<open>commentData\<close> of a creation request.\<close>

record commentData =
  parentId_d :: "string option"
  comment_d :: string
  rating_d :: json

text \<open>The persisted document: the comments of each movie and the upvote ledger.\<close>

record db =
  comments :: "string \<rightharpoonup> comment list"
  upvotes :: "string \<rightharpoonup> string list"

text \<open>The default of \<^verbatim>\<open>readCommentsDb\<close> (line 19).\<close>

definition empty_db :: db where
  "empty_db = \<lparr>comments = Map.empty, upvotes = Map.empty\<rparr>"

text \<open>\<^verbatim>\<open>m[k] || []\<close>: the list under a key, or the empty list.\<close>

definition or_empty :: "'a list option \<Rightarrow> 'a list" where
  "or_empty v = (case v of None \<Rightarrow> [] | Some xs \<Rightarrow> xs)"

text \<open>
  The document is a plain object: what \<^verbatim>\<open>JSON.parse\<close> returned, or the object literal of
  line 19. Reading a property that such an object does not hold itself falls through to
  \<^verbatim>\<open>Object.prototype\<close>. These are the names \<^verbatim>\<open>Object.prototype\<close> holds; under each of
  them the read gives a function (under \<^verbatim>\<open>__proto__\<close> the prototype itself): a truthy
  value that is not an array.
\<close>

definition object_prototype_keys :: "string list" where
  "object_prototype_keys =
    [''constructor'', ''__defineGetter__'', ''__defineSetter__'', ''hasOwnProperty'',
     ''__lookupGetter__'', ''__lookupSetter__'', ''isPrototypeOf'', ''propertyIsEnumerable'',
     ''toString'', ''valueOf'', ''__proto__'', ''toLocaleString'']"

text \<open>
  \<^verbatim>\<open>obj[k] || []\<close> as the receiver of an array method (\<^verbatim>\<open>forEach\<close>, \<^verbatim>\<open>includes\<close>,
  \<^verbatim>\<open>push\<close>): the array of the object's own property, the empty array when there is no
  such property, and \<open>None\<close> when the read gives an inherited value, which has no such
  method, so that the call throws a \<^verbatim>\<open>TypeError\<close>.
\<close>

definition array_at :: "(string \<rightharpoonup> 'a list) \<Rightarrow> string \<Rightarrow> 'a list option" where
  "array_at obj k =
    (case obj k of
       Some xs \<Rightarrow> Some xs
     | None \<Rightarrow> if k \<in> set object_prototype_keys then None else Some [])"

text \<open>
  What \<^verbatim>\<open>JSON.parse\<close> reads from the text that \<^verbatim>\<open>JSON.stringify\<close> writes for a value
  held in a property: a number that is not finite is written as \<^verbatim>\<open>null\<close>, a property
  whose value is \<^verbatim>\<open>undefined\<close> is left out, and \<^verbatim>\<open>undefined\<close> in an array is written as
  \<^verbatim>\<open>null\<close>.
\<close>

primrec json_roundtrip :: "json \<Rightarrow> json" where
  "json_roundtrip JUndefined = JUndefined"
| "json_roundtrip JNull = JNull"
| "json_roundtrip (JBool b) = JBool b"
| "json_roundtrip (JNum n) = (case n of Finite q \<Rightarrow> JNum (Finite q) | _ \<Rightarrow> JNull)"
| "json_roundtrip (JStr s) = JStr s"
| "json_roundtrip (JArr vs) =
    JArr (map (\<lambda>v. if v = JUndefined then JNull else v) (map json_roundtrip vs))"
| "json_roundtrip (JObj kvs) =
    JObj (filter (\<lambda>(k, v). v \<noteq> JUndefined) (map (map_prod id json_roundtrip) kvs))"

text \<open>
  A comment and a document as they are sent in a response (\<^verbatim>\<open>res.json\<close>) and as the next
  \<^verbatim>\<open>readCommentsDb\<close> finds them after \<^verbatim>\<open>writeCommentsDb\<close>. Only \<open>rating\<close> can hold a
  value that the text does not keep.
\<close>

definition json_comment :: "comment \<Rightarrow> comment" where
  "json_comment c = c\<lparr>rating := json_roundtrip (rating c)\<rparr>"

definition json_db :: "db \<Rightarrow> db" where
  "json_db d = \<lparr>comments = (\<lambda>k. map_option (map json_comment) (comments d k)), upvotes = upvotes d\<rparr>"

text \<open>Truthiness of a nullable string: \<^verbatim>\<open>null\<close> and the empty string are falsy.\<close>

definition truthy_str :: "string option \<Rightarrow> bool" where
  "truthy_str p = (case p of None \<Rightarrow> False | Some s \<Rightarrow> s \<noteq> [])"

text \<open>What a response carries.\<close>

datatype thread = Thread comment "thread list"

datatype body =
    Error string
  | Thrown string
  | Created comment
  | Upvotes "string list"
  | Success
  | Threads "thread list" "string \<rightharpoonup> string list"

record response =
  status :: nat
  body :: body

text \<open>
  A handler returns its response and the document it has written with
  \<^verbatim>\<open>writeCommentsDb\<close>, if it has written one. A handler that throws is answered by
  Express with status 500 (\<open>Thrown\<close>, with the name of the error) and has written nothing.
\<close>

type_synonym outcome = "response \<times> db option"

text \<open>The user a valid session names: \<^verbatim>\<open>session.user.id\<close>.\<close>

definition session_user_id :: "json \<Rightarrow> string" where
  "session_user_id session = str_of (get_prop (get_prop session ''user'') ''id'')"

section \<open>Adding a comment\<close>

text \<open>Decimal digits of a number, as a template literal prints them.\<close>

function decimal :: "nat \<Rightarrow> string" where
  "decimal n =
    (if n < 10 then [''0123456789'' ! n]
     else decimal (n div 10) @ [''0123456789'' ! (n mod 10)])"
  by pat_completeness auto
termination
  by (relation "measure (\<lambda>n. n)") auto

declare decimal.simps [simp del]

definition string_of_time :: "int \<Rightarrow> string" where
  "string_of_time t = (if t < 0 then CHR ''-'' # decimal (nat (- t)) else decimal (nat t))"

definition replace_all :: "char \<Rightarrow> string \<Rightarrow> string \<Rightarrow> string" where
  "replace_all c r s = concat (map (\<lambda>x. if x = c then r else [x]) s)"

definition sanitize :: "string \<Rightarrow> string" where
  "sanitize str = replace_all CHR ''>'' ''&gt;'' (replace_all CHR ''<'' ''&lt;'' str)"

text \<open>
  The object literal of lines 89 to 97. \<open>now_id\<close> is the reading of \<^verbatim>\<open>Date.now()\<close> in
  line 90 and \<open>now_date\<close> the instant of \<^verbatim>\<open>new Date()\<close> in line 95.
\<close>

definition newComment :: "int \<Rightarrow> int \<Rightarrow> user \<Rightarrow> commentData \<Rightarrow> comment" where
  "newComment now_id now_date user commentData =
    \<lparr> id_c = ''comment_'' @ string_of_time now_id,
      parentId = (if truthy_str (parentId_d commentData) then parentId_d commentData else None),
      reviewer = name_u user,
      userId = id_u user,
      comment_c = sanitize (comment_d commentData),
      date = now_date,
      rating = (if truthy_str (parentId_d commentData) then JUndefined else rating_d commentData) \<rparr>"

text \<open>
  POST /api/comments (lines 81 to 104). \<^verbatim>\<open>push\<close> in line 100 throws when
  \<^verbatim>\<open>db.comments[movieId]\<close> is an inherited value.
\<close>

definition post_comment ::
  "int \<Rightarrow> int \<Rightarrow> int \<Rightarrow> user list \<Rightarrow> db \<Rightarrow> string \<Rightarrow> commentData \<Rightarrow> json \<Rightarrow> outcome" where
  "post_comment now now_id now_date users db movieId commentData session =
    (if \<not> fst (validateSession now session) then
       (\<lparr>status = 401, body = Error ''Unauthorized''\<rparr>, None)
     else case find (\<lambda>u. id_u u = session_user_id session) users of
       None \<Rightarrow> (\<lparr>status = 404, body = Error ''User not found''\<rparr>, None)
     | Some user \<Rightarrow>
         let c = newComment now_id now_date user commentData
         in case array_at (comments db) movieId of
              None \<Rightarrow> (\<lparr>status = 500, body = Thrown ''TypeError''\<rparr>, None)
            | Some movieComments \<Rightarrow>
                (\<lparr>status = 201, body = Created (json_comment c)\<rparr>,
                 Some (json_db (db\<lparr>comments := (comments db)(movieId \<mapsto> movieComments @ [c])\<rparr>))))"

section \<open>Toggling an upvote\<close>

text \<open>Lines 115 to 119, on the array of voters.\<close>

definition toggle :: "string list \<Rightarrow> string \<Rightarrow> string list" where
  "toggle upvoteUserIds uid =
    (if uid \<in> set upvoteUserIds then filter (\<lambda>i. i \<noteq> uid) upvoteUserIds
     else upvoteUserIds @ [uid])"

text \<open>
  Lines 113 to 120: the document afterwards and the voters of the comment, or \<open>None\<close> when
  \<^verbatim>\<open>includes\<close> throws because \<^verbatim>\<open>db.upvotes[commentId]\<close> is an inherited value.
\<close>

definition toggle_upvote :: "db \<Rightarrow> string \<Rightarrow> string \<Rightarrow> (db \<times> string list) option" where
  "toggle_upvote db commentId uid =
    (case array_at (upvotes db) commentId of
       None \<Rightarrow> None
     | Some upvoteUserIds \<Rightarrow>
         Some (db\<lparr>upvotes := (upvotes db)(commentId \<mapsto> toggle upvoteUserIds uid)\<rparr>,
               toggle upvoteUserIds uid))"

text \<open>PUT /api/comments (lines 109 to 124).\<close>

definition put_comment :: "int \<Rightarrow> db \<Rightarrow> string \<Rightarrow> json \<Rightarrow> outcome" where
  "put_comment now db commentId session =
    (if \<not> fst (validateSession now session) then
       (\<lparr>status = 401, body = Error ''Unauthorized''\<rparr>, None)
     else case toggle_upvote db commentId (session_user_id session) of
       None \<Rightarrow> (\<lparr>status = 500, body = Thrown ''TypeError''\<rparr>, None)
     | Some (db', upvoteUserIds) \<Rightarrow>
         (\<lparr>status = 200, body = Upvotes upvoteUserIds\<rparr>, Some (json_db db')))"

text \<open>The voters of a comment, as a set.\<close>

definition voters :: "db \<Rightarrow> string \<Rightarrow> string set" where
  "voters db commentId = set (or_empty (upvotes db commentId))"

section \<open>Cascade delete\<close>

text \<open>
  \<^verbatim>\<open>commentsToDelete\<close> is a \<^verbatim>\<open>Set\<close>: a list without repetition, in insertion order.
\<close>

definition set_add :: "string \<Rightarrow> string list \<Rightarrow> string list" where
  "set_add x S = (if x \<in> set S then S else S @ [x])"

text \<open>\<^verbatim>\<open>c.parentId && S.has(c.parentId)\<close>.\<close>

definition parent_in :: "comment \<Rightarrow> string set \<Rightarrow> bool" where
  "parent_in c S = (truthy_str (parentId c) \<and> (case parentId c of None \<Rightarrow> False | Some p \<Rightarrow> p \<in> S))"

text \<open>One \<^verbatim>\<open>forEach\<close> over the movie's comments (line 144).\<close>

fun scan :: "comment list \<Rightarrow> string list \<Rightarrow> string list" where
  "scan [] S = S"
| "scan (c # cs) S = scan cs (if parent_in c (set S) then set_add (id_c c) S else S)"

text \<open>The \<^verbatim>\<open>while (changed)\<close> loop of lines 141 to 146.\<close>

function rescan :: "comment list \<Rightarrow> string list \<Rightarrow> string list" where
  "rescan movieComments S =
    (let S' = scan movieComments S
     in if length S' > length S then rescan movieComments S' else S')"
  by pat_completeness auto
termination
proof (relation "measure (\<lambda>(movieComments, S). length (filter (\<lambda>c. id_c c \<notin> set S) movieComments))")
  show "wf (measure (\<lambda>(movieComments, S). length (filter (\<lambda>c. id_c c \<notin> set S) movieComments)))"
    by simp
next
  fix movieComments :: "comment list" and S S' :: "string list"
  assume S': "S' = scan movieComments S" and grow: "length S < length S'"
  have mono: "set T \<subseteq> set (scan cs T)" for cs T
  proof (induction cs arbitrary: T)
    case Nil
    show ?case by simp
  next
    case (Cons c cs)
    have "set T \<subseteq> set (if parent_in c (set T) then set_add (id_c c) T else T)"
      by (auto simp: set_add_def)
    also have "\<dots> \<subseteq> set (scan cs (if parent_in c (set T) then set_add (id_c c) T else T))"
      by (rule Cons.IH)
    finally show ?case by simp
  qed
  have new: "\<exists>c \<in> set cs. id_c c \<in> set (scan cs T) \<and> id_c c \<notin> set T"
    if "length T < length (scan cs T)" for cs T
    using that
  proof (induction cs arbitrary: T)
    case Nil
    then show ?case by simp
  next
    case (Cons c cs)
    let ?T = "if parent_in c (set T) then set_add (id_c c) T else T"
    show ?case
    proof (cases "length T < length ?T")
      case True
      then have "id_c c \<notin> set T" "id_c c \<in> set ?T"
        by (auto simp: set_add_def split: if_splits)
      with mono [of ?T cs] show ?thesis by auto
    next
      case False
      then have "?T = T" by (auto simp: set_add_def)
      with Cons.prems have "length T < length (scan cs T)" by simp
      from Cons.IH [OF this] show ?thesis using \<open>?T = T\<close> by auto
    qed
  qed
  from new [OF grow [unfolded S']] obtain c where c: "c \<in> set movieComments"
    "id_c c \<in> set S'" "id_c c \<notin> set S"
    unfolding S' by blast
  have "set S \<subseteq> set S'" unfolding S' by (rule mono)
  then have "length (filter (\<lambda>c. id_c c \<notin> set S') movieComments)
        \<le> length (filter (\<lambda>c. id_c c \<notin> set S') (filter (\<lambda>c. id_c c \<notin> set S) movieComments))"
    by (simp add: subset_iff conj_commute cong: conj_cong) (metis (mono_tags, lifting) filter_cong order_refl)
  also have "\<dots> < length (filter (\<lambda>c. id_c c \<notin> set S) movieComments)"
    using c by (intro length_filter_less [of c]) auto
  finally show "((movieComments, S'), (movieComments, S))
      \<in> measure (\<lambda>(movieComments, S). length (filter (\<lambda>c. id_c c \<notin> set S) movieComments))"
    by simp
qed

declare rescan.simps [simp del]

text \<open>
  Lines 136 to 149: the document that is handed to \<^verbatim>\<open>writeCommentsDb\<close>, or \<open>None\<close> when
  \<^verbatim>\<open>forEach\<close> throws because \<^verbatim>\<open>db.comments[movieId]\<close> is an inherited value.
\<close>

definition commentsToDelete :: "comment list \<Rightarrow> string \<Rightarrow> string list" where
  "commentsToDelete movieComments commentId = rescan movieComments [commentId]"

definition cascade_delete :: "db \<Rightarrow> string \<Rightarrow> string \<Rightarrow> db option" where
  "cascade_delete db movieId commentId =
    (case array_at (comments db) movieId of
       None \<Rightarrow> None
     | Some movieComments \<Rightarrow>
         let S = commentsToDelete movieComments commentId
         in Some \<lparr> comments = (comments db)(movieId \<mapsto> filter (\<lambda>c. id_c c \<notin> set S) movieComments),
                   upvotes = fold (\<lambda>i m. m(i := None)) S (upvotes db) \<rparr>)"

text \<open>DELETE /api/comments (lines 129 to 153).\<close>

definition delete_comment :: "int \<Rightarrow> user list \<Rightarrow> db \<Rightarrow> string \<Rightarrow> string \<Rightarrow> json \<Rightarrow> outcome" where
  "delete_comment now users db movieId commentId session =
    (if \<not> fst (validateSession now session) then
       (\<lparr>status = 401, body = Error ''Unauthorized''\<rparr>, None)
     else case find (\<lambda>u. id_u u = session_user_id session) users of
       None \<Rightarrow> (\<lparr>status = 403, body = Error ''Forbidden''\<rparr>, None)
     | Some user \<Rightarrow>
         if role user \<noteq> ''admin'' then (\<lparr>status = 403, body = Error ''Forbidden''\<rparr>, None)
         else case cascade_delete db movieId commentId of
                None \<Rightarrow> (\<lparr>status = 500, body = Thrown ''TypeError''\<rparr>, None)
              | Some db' \<Rightarrow> (\<lparr>status = 200, body = Success\<rparr>, Some (json_db db')))"

text \<open>The document on disk after a handler has run.\<close>

definition persisted :: "db \<Rightarrow> outcome \<Rightarrow> db" where
  "persisted db out = (case snd out of None \<Rightarrow> db | Some db' \<Rightarrow> db')"

section \<open>Building the threads\<close>

text \<open>
  GET /api/comments (lines 52 to 76); \<^verbatim>\<open>forEach\<close> in line 60 throws when
  \<^verbatim>\<open>db.comments[movieId]\<close> is an inherited value. The handler works on the objects of
  \<^verbatim>\<open>movieComments\<close> in place: it gives each a \<^verbatim>\<open>replies\<close> array and pushes objects into
  the arrays of others. An object is named here by its position in \<^verbatim>\<open>movieComments\<close>;
  \<open>replies ! j\<close> is the array of the object at position \<open>j\<close>, and \<^verbatim>\<open>commentMap\<close> maps an
  id to the object last stored under it.
\<close>

definition index_comments :: "comment list \<Rightarrow> (string \<rightharpoonup> nat)" where
  "index_comments movieComments =
    fold (\<lambda>(i, c) commentMap. commentMap(id_c c \<mapsto> i)) (enumerate 0 movieComments) Map.empty"

text \<open>
  \<^verbatim>\<open>c.parentId && commentMap.has(c.parentId)\<close>, with the object
  \<^verbatim>\<open>commentMap.get(c.parentId)\<close> when it holds.
\<close>

definition lookup_parent :: "(string \<rightharpoonup> nat) \<Rightarrow> comment \<Rightarrow> nat option" where
  "lookup_parent commentMap c =
    (if truthy_str (parentId c) then Option.bind (parentId c) commentMap else None)"

definition link_step ::
  "(string \<rightharpoonup> nat) \<Rightarrow> nat \<times> comment \<Rightarrow> nat list \<times> nat list list \<Rightarrow> nat list \<times> nat list list" where
  "link_step commentMap = (\<lambda>(i, c) (rootComments, replies).
     case lookup_parent commentMap c of
       Some j \<Rightarrow> (rootComments, replies[j := replies ! j @ [i]])
     | None \<Rightarrow> (rootComments @ [i], replies))"

definition link_comments :: "comment list \<Rightarrow> (string \<rightharpoonup> nat) \<Rightarrow> nat list \<times> nat list list" where
  "link_comments movieComments commentMap =
    fold (link_step commentMap) (enumerate 0 movieComments)
      ([], replicate (length movieComments) [])"

text \<open>
  The roots after \<^verbatim>\<open>rootComments.sort\<close> with the comparator of line 75 (a stable sort,
  newest first), and the reply arrays.
\<close>

definition build_threads :: "comment list \<Rightarrow> nat list \<times> nat list list" where
  "build_threads movieComments =
    (case link_comments movieComments (index_comments movieComments) of
       (rootComments, replies) \<Rightarrow>
         (sort_key (\<lambda>i. - date (movieComments ! i)) rootComments, replies))"

text \<open>
  Writing an object of the response as JSON follows its \<^verbatim>\<open>replies\<close> array. The first
  argument bounds the depth that is followed; \<open>None\<close> is a chain of replies deeper than
  that, which for the bound of \<open>get_comments\<close> is a cycle.
\<close>

fun render :: "nat \<Rightarrow> comment list \<Rightarrow> nat list list \<Rightarrow> nat \<Rightarrow> thread option" where
  "render 0 movieComments replies i = None"
| "render (Suc k) movieComments replies i =
    (case those (map (render k movieComments replies) (replies ! i)) of
       None \<Rightarrow> None
     | Some ts \<Rightarrow> Some (Thread (json_comment (movieComments ! i)) ts))"

definition get_comments :: "db \<Rightarrow> string option \<Rightarrow> response" where
  "get_comments db movieId =
    (case movieId of
       None \<Rightarrow> \<lparr>status = 400, body = Error ''Movie ID is required''\<rparr>
     | Some m \<Rightarrow>
         if m = [] then \<lparr>status = 400, body = Error ''Movie ID is required''\<rparr>
         else
           case array_at (comments db) m of
             None \<Rightarrow> \<lparr>status = 500, body = Thrown ''TypeError''\<rparr>
           | Some movieComments \<Rightarrow>
               let commentMap = index_comments movieComments;
                   upvotesForMovie = upvotes db |` dom commentMap
               in case build_threads movieComments of
                    (rootComments, replies) \<Rightarrow>
                      (case those (map (render (length movieComments) movieComments replies) rootComments) of
                         Some ts \<Rightarrow> \<lparr>status = 200, body = Threads ts upvotesForMovie\<rparr>
                       | None \<Rightarrow> \<lparr>status = 500, body = Thrown ''TypeError''\<rparr>))"

section \<open>The comment routes in the server\<close>

text \<open>
  server.ts mounts the router of api/comments.ts as it is (line 214), with no handler
  before it. The process holds the limiter's map and the document on disk; a request to a
  comment route runs its handler on the document and leaves the map alone. \<open>now\<close> is the
  clock reading of the session check, \<open>now_id\<close> and \<open>now_date\<close> are those of
  \<open>newComment\<close>.
\<close>

record server =
  userRequests :: userRequests
  commentsDb :: db

datatype comment_request =
    Post string commentData json
  | Put string json
  | Delete string string json

definition comments_router ::
  "int \<Rightarrow> int \<Rightarrow> int \<Rightarrow> user list \<Rightarrow> server \<Rightarrow> comment_request \<Rightarrow> response \<times> server" where
  "comments_router now now_id now_date users srv req =
    (let out = (case req of
                  Post movieId commentData session \<Rightarrow>
                    post_comment now now_id now_date users (commentsDb srv) movieId commentData session
                | Put commentId session \<Rightarrow> put_comment now (commentsDb srv) commentId session
                | Delete movieId commentId session \<Rightarrow>
                    delete_comment now users (commentsDb srv) movieId commentId session)
     in (fst out, srv\<lparr>commentsDb := persisted (commentsDb srv) out\<rparr>))"

section \<open>What the specification speaks of\<close>

text \<open>
  The stored comments have a parent id that is \<^verbatim>\<open>null\<close> or a non-empty string: this is
  what \<open>newComment\<close> writes (\<^verbatim>\<open>commentData.parentId || null\<close>).
\<close>

definition stored_ok :: "comment list \<Rightarrow> bool" where
  "stored_ok cs = (\<forall>c \<in> set cs. parentId c \<noteq> Some [])"

text \<open>The parent id of a comment resolves to a comment of the list.\<close>

definition resolves :: "comment list \<Rightarrow> comment \<Rightarrow> bool" where
  "resolves cs c = (case parentId c of None \<Rightarrow> False | Some p \<Rightarrow> p \<in> id_c ` set cs)"

text \<open>
  The position of the parent a comment resolves to: the last comment of the list that has
  the id.
\<close>

definition parent_position :: "comment list \<Rightarrow> comment \<Rightarrow> nat option" where
  "parent_position cs c =
    (case parentId c of
       None \<Rightarrow> None
     | Some p \<Rightarrow>
         (case filter (\<lambda>j. id_c (cs ! j) = p) [0..<length cs] of
            [] \<Rightarrow> None
          | j # js \<Rightarrow> Some (last (j # js))))"

text \<open>
  A comment lies \<open>k\<close> replies below a root, where \<open>par\<close> gives the parent object of an
  object, if it has one.
\<close>

fun below_root :: "(nat \<Rightarrow> nat option) \<Rightarrow> nat \<Rightarrow> nat \<Rightarrow> bool" where
  "below_root par 0 i = (par i = None)"
| "below_root par (Suc k) i = (case par i of None \<Rightarrow> False | Some j \<Rightarrow> below_root par k j)"

text \<open>
  The thread that the response holds for the object at a position: the comment as it is
  sent, and below it the threads of the objects in its reply array, in the array's order.
\<close>

fun thread_of :: "comment list \<Rightarrow> nat list list \<Rightarrow> nat \<Rightarrow> thread \<Rightarrow> bool" where
  "thread_of cs replies i (Thread c ts) =
    (c = json_comment (cs ! i) \<and> list_all2 (thread_of cs replies) (replies ! i) ts)"


text \<open>The comment at the head of a thread.\<close>

fun thread_comment :: "thread \<Rightarrow> comment" where
  "thread_comment (Thread c ts) = c"

text \<open>
  The comment with the given id together with every direct and indirect reply to it: the
  least set that holds the id and, with a parent id, the id of every comment that has it.
\<close>

inductive_set descendants :: "comment list \<Rightarrow> string \<Rightarrow> string set"
  for cs :: "comment list" and commentId :: string where
  seed: "commentId \<in> descendants cs commentId"
| reply: "c \<in> set cs \<Longrightarrow> parentId c = Some p \<Longrightarrow> p \<in> descendants cs commentId
          \<Longrightarrow> id_c c \<in> descendants cs commentId"

text \<open>The session names a user who is stored with the administrative role.\<close>

definition admin_session :: "user list \<Rightarrow> json \<Rightarrow> bool" where
  "admin_session users session =
    (case find (\<lambda>u. id_u u = session_user_id session) users of
       None \<Rightarrow> False
     | Some user \<Rightarrow> role user = ''admin'')"

section \<open>Example data\<close>

definition example_session :: "string \<Rightarrow> json" where
  "example_session uid =
    JObj [(''token'', JStr ''tok''), (''user'', JObj [(''id'', JStr uid)]),
          (''expires'', JNum (Finite 1000))]"

definition example_users :: "user list" where
  "example_users =
    [\<lparr>id_u = ''u1'', name_u = ''Ann'', role = ''user''\<rparr>,
     \<lparr>id_u = ''a1'', name_u = ''Bo'', role = ''admin''\<rparr>]"

definition example_comment :: "string \<Rightarrow> string option \<Rightarrow> int \<Rightarrow> comment" where
  "example_comment i p t =
    \<lparr>id_c = i, parentId = p, reviewer = ''Ann'', userId = ''u1'', comment_c = ''text'',
     date = t, rating = JUndefined\<rparr>"

text \<open>
  The scenario of the specification: A is a root, B replies to A, C replies to B, B2 replies
  to A, and each of the four has an entry in the ledger. D is a later root.
\<close>

definition example_thread :: "comment list" where
  "example_thread =
    [example_comment ''A'' None 10, example_comment ''B'' (Some ''A'') 20,
     example_comment ''C'' (Some ''B'') 30, example_comment ''B2'' (Some ''A'') 40]"

definition example_db :: db where
  "example_db =
    \<lparr>comments = [''m1'' \<mapsto> example_thread],
     upvotes = [''A'' \<mapsto> [''u1''], ''B'' \<mapsto> [''u2''], ''C'' \<mapsto> [''u1''], ''B2'' \<mapsto> [''u3'']]\<rparr>"

text \<open>
  The second scenario of the specification: A, B (parent A), C (parent B), and a root D
  created after A.
\<close>

definition example_forum :: db where
  "example_forum =
    \<lparr>comments = [''m1'' \<mapsto> [example_comment ''A'' None 10, example_comment ''B'' (Some ''A'') 20,
                             example_comment ''C'' (Some ''B'') 30, example_comment ''D'' None 40]],
     upvotes = Map.empty\<rparr>"

section \<open>Properties of session validation\<close>

lemma typeof_object_iff: "truthy v \<and> typeof v = ''object'' \<longleftrightarrow> is_object v"
  by (cases v) (simp_all add: is_object_def)

lemma typeof_string_iff: "typeof v = ''string'' \<and> truthy v \<longleftrightarrow> nonempty_string v"
  by (cases v) (simp_all add: nonempty_string_def)

lemma typeof_number_iff: "typeof v = ''number'' \<longleftrightarrow> is_number v"
  by (cases v) (simp_all add: is_number_def)

lemma num_gt_time_iff: "num_gt_time e now \<longleftrightarrow> \<not> num_le_time e now"
  by (cases e) auto

lemma validateSession_verdict:
  "fst (validateSession now s) \<longleftrightarrow> structurally_valid s \<and> not_expired now s"
proof -
  have "fst (validateSession now s) \<longleftrightarrow>
      (truthy s \<and> typeof s = ''object'')
    \<and> (truthy (get_prop s ''user'') \<and> typeof (get_prop s ''user'') = ''object'')
    \<and> (typeof (get_prop (get_prop s ''user'') ''id'') = ''string''
         \<and> truthy (get_prop (get_prop s ''user'') ''id''))
    \<and> (typeof (get_prop s ''token'') = ''string'' \<and> truthy (get_prop s ''token''))
    \<and> typeof (get_prop s ''expires'') = ''number''
    \<and> \<not> (case get_prop s ''expires'' of JNum e \<Rightarrow> num_le_time e now | _ \<Rightarrow> False)"
    unfolding validateSession_def by (simp only: fst_conv split: if_split) blast
  also have "\<dots> \<longleftrightarrow> structurally_valid s \<and> not_expired now s"
    unfolding typeof_object_iff typeof_string_iff typeof_number_iff
    by (auto simp: structurally_valid_def not_expired_def is_number_def num_gt_time_iff
             split: json.splits)
  finally show ?thesis .
qed

lemma auth_validateSession_verdict:
  "fst (auth_validateSession now s) \<longleftrightarrow> structurally_valid s \<and> not_expired now s"
proof -
  have "fst (auth_validateSession now s) \<longleftrightarrow>
      (truthy s \<and> typeof s = ''object'')
    \<and> (truthy (get_prop s ''user'') \<and> typeof (get_prop s ''user'') = ''object'')
    \<and> (typeof (get_prop (get_prop s ''user'') ''id'') = ''string''
         \<and> truthy (get_prop (get_prop s ''user'') ''id''))
    \<and> (typeof (get_prop s ''token'') = ''string'' \<and> truthy (get_prop s ''token''))
    \<and> typeof (get_prop s ''expires'') = ''number''
    \<and> \<not> (case get_prop s ''expires'' of JNum e \<Rightarrow> num_le_time e now | _ \<Rightarrow> False)"
    unfolding auth_validateSession_def by (simp only: fst_conv split: if_split) blast
  also have "\<dots> \<longleftrightarrow> structurally_valid s \<and> not_expired now s"
    unfolding typeof_object_iff typeof_string_iff typeof_number_iff
    by (auto simp: structurally_valid_def not_expired_def is_number_def num_gt_time_iff
             split: json.splits)
  finally show ?thesis .
qed

text \<open>
  Claim C6. A validator accepts a session exactly when the session is a non-null object with
  a non-empty string token, a user sub-object with a non-empty string id and a numeric
  expiry, and the expiry is strictly greater than the current time. This holds of the
  validator of the comments module and of the one of the auth module. In particular a
  session whose expiry is at or before the current time is rejected, whatever else it holds.
\<close>

theorem C6_session_accepted_iff_valid_and_unexpired:
  "(fst (validateSession now s) \<longleftrightarrow> structurally_valid s \<and> not_expired now s)
   \<and> (fst (auth_validateSession now s) \<longleftrightarrow> structurally_valid s \<and> not_expired now s)
   \<and> (\<forall>e. get_prop s ''expires'' = JNum e \<longrightarrow> num_le_time e now
          \<longrightarrow> \<not> fst (validateSession now s) \<and> \<not> fst (auth_validateSession now s))"
proof -
  have "\<not> not_expired now s" if "get_prop s ''expires'' = JNum e" "num_le_time e now" for e
    using that by (simp add: not_expired_def num_gt_time_iff)
  then show ?thesis
    using validateSession_verdict [of now s] auth_validateSession_verdict [of now s] by blast
qed

theorem C6_witness:
  "get_prop (JObj [(''token'', JStr ''t''), (''user'', JObj [(''id'', JStr ''u1'')]),
                   (''expires'', JNum (Finite 1000))]) ''expires'' = JNum (Finite 1000)
   \<and> num_le_time (Finite 1000) 1000
   \<and> structurally_valid (JObj [(''token'', JStr ''t''), (''user'', JObj [(''id'', JStr ''u1'')]),
                   (''expires'', JNum (Finite 1000))])
   \<and> \<not> fst (validateSession 1000 (JObj [(''token'', JStr ''t''), (''user'', JObj [(''id'', JStr ''u1'')]),
                   (''expires'', JNum (Finite 1000))]))
   \<and> fst (validateSession 999 (JObj [(''token'', JStr ''t''), (''user'', JObj [(''id'', JStr ''u1'')]),
                   (''expires'', JNum (Finite 1000))]))"
  using C6_session_accepted_iff_valid_and_unexpired [of 1000 "JObj [(''token'', JStr ''t''),
          (''user'', JObj [(''id'', JStr ''u1'')]), (''expires'', JNum (Finite 1000))]"]
        C6_session_accepted_iff_valid_and_unexpired [of 999 "JObj [(''token'', JStr ''t''),
          (''user'', JObj [(''id'', JStr ''u1'')]), (''expires'', JNum (Finite 1000))]"]
  by (simp add: structurally_valid_def not_expired_def is_object_def nonempty_string_def
        is_number_def)

text \<open>
  Claim C10. The validator of the comments module and the validator of the auth module give
  the same verdict on every session at every time; they differ only in the text they log.
\<close>

theorem C10_validators_agree:
  "fst (validateSession now s) = fst (auth_validateSession now s)"
  using validateSession_verdict [of now s] auth_validateSession_verdict [of now s] by simp

theorem C10_witness:
  "fst (validateSession 999 (JObj [(''token'', JStr ''t''), (''user'', JObj [(''id'', JStr ''u1'')]),
                   (''expires'', JNum (Finite 1000))]))
   = fst (auth_validateSession 999 (JObj [(''token'', JStr ''t''), (''user'', JObj [(''id'', JStr ''u1'')]),
                   (''expires'', JNum (Finite 1000))]))
  \<and> fst (auth_validateSession 999 (JObj [(''token'', JStr ''t''), (''user'', JObj [(''id'', JStr ''u1'')]),
                   (''expires'', JNum (Finite 1000))]))
  \<and> fst (validateSession 1000 (JArr [JStr ''t'']))
   = fst (auth_validateSession 1000 (JArr [JStr ''t'']))
  \<and> \<not> fst (auth_validateSession 1000 (JArr [JStr ''t'']))"
  using C10_validators_agree [of 999 "JObj [(''token'', JStr ''t''),
          (''user'', JObj [(''id'', JStr ''u1'')]), (''expires'', JNum (Finite 1000))]"]
        C10_validators_agree [of 1000 "JArr [JStr ''t'']"]
  by (simp add: auth_validateSession_def)

section \<open>Properties of the rate limiter\<close>

lemma checkRateLimit_unfold:
  "checkRateLimit now reqs u =
    (if 20 \<le> length (filter (\<lambda>t. now - t < 60000) (or_empty (reqs u))) then (True, reqs)
     else (False, reqs(u \<mapsto> filter (\<lambda>t. now - t < 60000) (or_empty (reqs u)) @ [now])))"
  by (simp add: checkRateLimit_def RATE_LIMIT_WINDOW_MS_def MAX_REQUESTS_PER_WINDOW_def
        or_empty_def Let_def)

lemma checks_append:
  "checks (xs @ ys) reqs u =
    (case checks xs reqs u of
       (vs, reqs') \<Rightarrow> (case checks ys reqs' u of (ws, reqs'') \<Rightarrow> (vs @ ws, reqs'')))"
  by (induction xs arbitrary: reqs) (auto split: prod.splits)

lemma checks_admitted:
  assumes "\<forall>t \<in> set ts. filter (\<lambda>s. t - s < 60000) (or_empty (reqs u)) = new"
    and "\<forall>t \<in> set ts. \<forall>t' \<in> set ts. t - t' < 60000"
    and "length new + length ts \<le> 20"
    and "ts \<noteq> []"
  shows "checks ts reqs u = (replicate (length ts) False, reqs(u \<mapsto> new @ ts))"
  using assms
proof (induction ts arbitrary: reqs new)
  case Nil
  then show ?case by simp
next
  case (Cons t ts)
  have recent: "filter (\<lambda>s. t - s < 60000) (or_empty (reqs u)) = new"
    using Cons.prems(1) by simp
  have step: "checkRateLimit t reqs u = (False, reqs(u \<mapsto> new @ [t]))"
    using Cons.prems(3) by (simp add: checkRateLimit_unfold recent)
  show ?case
  proof (cases "ts = []")
    case True
    then show ?thesis by (simp add: step fun_eq_iff)
  next
    case False
    have keep: "filter (\<lambda>s. t' - s < 60000) new = new" if "t' \<in> set ts" for t'
    proof -
      have "filter (\<lambda>s. t' - s < 60000) (or_empty (reqs u)) = new"
        using Cons.prems(1) that by simp
      then have "filter (\<lambda>s. t' - s < 60000) new
          = filter (\<lambda>s. t' - s < 60000) (filter (\<lambda>s. t' - s < 60000) (or_empty (reqs u)))"
        by simp
      also have "\<dots> = filter (\<lambda>s. t' - s < 60000) (or_empty (reqs u))"
        by (simp only: filter_filter conj_absorb)
      finally show ?thesis using \<open>filter (\<lambda>s. t' - s < 60000) (or_empty (reqs u)) = new\<close> by simp
    qed
    have "\<forall>t' \<in> set ts. filter (\<lambda>s. t' - s < 60000) (or_empty ((reqs(u \<mapsto> new @ [t])) u)) = new @ [t]"
      using keep Cons.prems(2) by (simp add: or_empty_def)
    moreover have "\<forall>t \<in> set ts. \<forall>t' \<in> set ts. t - t' < 60000"
      using Cons.prems(2) by simp
    moreover have "length (new @ [t]) + length ts \<le> 20"
      using Cons.prems(3) by simp
    ultimately have "checks ts (reqs(u \<mapsto> new @ [t])) u
        = (replicate (length ts) False, (reqs(u \<mapsto> new @ [t]))(u \<mapsto> (new @ [t]) @ ts))"
      using False by (rule Cons.IH)
    then show ?thesis by (simp add: step fun_eq_iff)
  qed
qed

lemma twenty_first_rejected:
  assumes len: "length ts = 20"
    and old: "\<forall>s \<in> set (or_empty (reqs u)). \<forall>t \<in> set (ts @ [t21]). 60000 \<le> t - s"
    and span: "\<forall>t \<in> set (ts @ [t21]). \<forall>t' \<in> set (ts @ [t21]). t - t' < 60000"
  shows "checks (ts @ [t21]) reqs u = (replicate 20 False @ [True], reqs(u \<mapsto> ts))"
proof -
  have "\<forall>t \<in> set ts. filter (\<lambda>s. t - s < 60000) (or_empty (reqs u)) = []"
  proof
    fix t assume "t \<in> set ts"
    then have "\<not> t - s < 60000" if "s \<in> set (or_empty (reqs u))" for s
      using old that by fastforce
    then show "filter (\<lambda>s. t - s < 60000) (or_empty (reqs u)) = []"
      by (simp add: filter_empty_conv)
  qed
  moreover have "\<forall>t \<in> set ts. \<forall>t' \<in> set ts. t - t' < 60000"
    using span by simp
  moreover have "ts \<noteq> []" using len by auto
  ultimately have first: "checks ts reqs u = (replicate (length ts) False, reqs(u \<mapsto> [] @ ts))"
    using len by (intro checks_admitted) auto
  have "filter (\<lambda>s. t21 - s < 60000) ts = ts"
    using span by (auto simp: filter_id_conv)
  then have last: "checkRateLimit t21 (reqs(u \<mapsto> ts)) u = (True, reqs(u \<mapsto> ts))"
    using len by (simp add: checkRateLimit_unfold or_empty_def)
  show ?thesis
    by (simp add: checks_append first last len)
qed

lemma after_window_admitted:
  assumes "\<forall>s \<in> set (or_empty (reqs u)). 60000 \<le> now - s"
  shows "checkRateLimit now reqs u = (False, reqs(u \<mapsto> [now]))"
proof -
  have "filter (\<lambda>s. now - s < 60000) (or_empty (reqs u)) = []"
    using assms by (auto simp: filter_empty_conv)
  then show ?thesis by (simp add: checkRateLimit_unfold)
qed


text \<open>
  Claim C7. A check keeps the recorded timestamps of the user that are less than 60 seconds
  old; with 20 or more of them it rejects and records nothing, otherwise it records the
  current time after them and admits. Hence, for a user with no recorded request inside the
  window, of 21 checks within 60 seconds the first 20 are admitted and the 21st is rejected;
  and a check made when every recorded timestamp of the user is at least 60 seconds old is
  admitted.
\<close>

theorem C7_sliding_window:
  "checkRateLimit now reqs u =
     (if 20 \<le> length (filter (\<lambda>t. now - t < 60000) (or_empty (reqs u))) then (True, reqs)
      else (False, reqs(u \<mapsto> filter (\<lambda>t. now - t < 60000) (or_empty (reqs u)) @ [now])))
   \<and> (length ts = 20
        \<longrightarrow> (\<forall>s \<in> set (or_empty (reqs u)). \<forall>t \<in> set (ts @ [t21]). 60000 \<le> t - s)
        \<longrightarrow> (\<forall>t \<in> set (ts @ [t21]). \<forall>t' \<in> set (ts @ [t21]). t - t' < 60000)
        \<longrightarrow> fst (checks (ts @ [t21]) reqs u) = replicate 20 False @ [True])
   \<and> ((\<forall>s \<in> set (or_empty (reqs u)). 60000 \<le> now - s)
        \<longrightarrow> checkRateLimit now reqs u = (False, reqs(u \<mapsto> [now])))"
proof (intro conjI impI)
  show "checkRateLimit now reqs u =
     (if 20 \<le> length (filter (\<lambda>t. now - t < 60000) (or_empty (reqs u))) then (True, reqs)
      else (False, reqs(u \<mapsto> filter (\<lambda>t. now - t < 60000) (or_empty (reqs u)) @ [now])))"
    by (rule checkRateLimit_unfold)
next
  assume "length ts = 20"
    and "\<forall>s \<in> set (or_empty (reqs u)). \<forall>t \<in> set (ts @ [t21]). 60000 \<le> t - s"
    and "\<forall>t \<in> set (ts @ [t21]). \<forall>t' \<in> set (ts @ [t21]). t - t' < 60000"
  then show "fst (checks (ts @ [t21]) reqs u) = replicate 20 False @ [True]"
    by (simp only: twenty_first_rejected fst_conv)
next
  assume "\<forall>s \<in> set (or_empty (reqs u)). 60000 \<le> now - s"
  then show "checkRateLimit now reqs u = (False, reqs(u \<mapsto> [now]))"
    by (rule after_window_admitted)
qed

theorem C7_witness:
  "length [1..20] = 20
   \<and> fst (checks ([1..20] @ [21]) Map.empty ''u1'') = replicate 20 False @ [True]
   \<and> fst (checkRateLimit 59999 (Map.empty(''u1'' \<mapsto> [1..20])) ''u1'')
   \<and> checkRateLimit 60020 (Map.empty(''u1'' \<mapsto> [1..20])) ''u1''
       = (False, (Map.empty(''u1'' \<mapsto> [1..20]))(''u1'' \<mapsto> [60020]))"
proof -
  have a: "length [1..20] = 20" by simp
  have b: "\<forall>s \<in> set (or_empty (Map.empty ''u1'')). \<forall>t \<in> set ([1..20] @ [21]). 60000 \<le> t - s"
    by (simp add: or_empty_def)
  have c: "\<forall>t \<in> set ([1..20] @ [21]). \<forall>t' \<in> set ([1..20] @ [21]). t - t' < 60000"
    by auto
  have d: "\<forall>s \<in> set (or_empty ((Map.empty(''u1'' \<mapsto> [1..20])) ''u1'')). 60000 \<le> 60020 - s"
    by (simp add: or_empty_def)
  have e: "filter (\<lambda>t. 59999 - t < 60000) [1..20] = [1..20]"
    by (auto simp: filter_id_conv)
  from C7_sliding_window [of 60020 "Map.empty(''u1'' \<mapsto> [1..20])" "''u1''" "[1..20]" 21]
       C7_sliding_window [of 21 "Map.empty" "''u1''" "[1..20]" 21]
       C7_sliding_window [of 59999 "Map.empty(''u1'' \<mapsto> [1..20])" "''u1''" "[1..20]" 21]
       a b c d e
  show ?thesis by (simp add: or_empty_def)
qed

section \<open>Properties of the upvote toggle and of the authorization of delete\<close>

lemma example_session_valid: "fst (validateSession 999 (example_session uid)) \<longleftrightarrow> uid \<noteq> []"
  by (simp add: validateSession_def example_session_def)

lemma example_session_expired: "\<not> fst (validateSession 1000 (example_session uid))"
  by (simp add: validateSession_def example_session_def)

lemma example_session_user: "session_user_id (example_session uid) = uid"
  by (simp add: session_user_id_def example_session_def)

lemma or_empty_simps: "or_empty None = []" "or_empty (Some xs) = xs"
  by (simp_all add: or_empty_def)

lemma array_at_own: "obj k = Some xs \<Longrightarrow> array_at obj k = Some xs"
  by (simp add: array_at_def)

lemma array_at_Some:
  "array_at obj k = Some xs \<longleftrightarrow> (obj k = Some xs \<or> obj k = None \<and> k \<notin> set object_prototype_keys \<and> xs = [])"
  by (auto simp: array_at_def split: option.splits)

lemma array_at_None: "array_at obj k = None \<longleftrightarrow> obj k = None \<and> k \<in> set object_prototype_keys"
  by (simp add: array_at_def split: option.splits)

lemma array_at_or_empty: "array_at obj k = Some xs \<Longrightarrow> or_empty (obj k) = xs"
  by (auto simp: array_at_Some or_empty_simps)

lemma json_db_simps:
  "upvotes (json_db d) = upvotes d"
  "comments (json_db d) k = map_option (map json_comment) (comments d k)"
  by (simp_all add: json_db_def)

lemma toggle_set: "set (toggle l u) = (if u \<in> set l then set l - {u} else insert u (set l))"
  by (auto simp: toggle_def)

lemma toggle_toggle_set: "set (toggle (toggle l u) u) = set l"
  by (auto simp: toggle_def)

lemma toggle_absent: "u \<notin> set l \<Longrightarrow> toggle l u = l @ [u]"
  "u \<notin> set l \<Longrightarrow> count_list (toggle l u) u = 1"
  by (simp_all add: toggle_def count_list_0_iff)

lemma toggle_distinct: "distinct l \<Longrightarrow> distinct (toggle l u)"
  by (simp add: toggle_def)

lemma toggle_upvote_array:
  "array_at (upvotes db) c = Some l \<Longrightarrow>
    toggle_upvote db c u = Some (db\<lparr>upvotes := (upvotes db)(c \<mapsto> toggle l u)\<rparr>, toggle l u)"
  by (simp add: toggle_upvote_def)

lemma toggle_upvote_twice:
  assumes "array_at (upvotes db) c = Some l"
  shows "toggle_upvote (json_db (db\<lparr>upvotes := (upvotes db)(c \<mapsto> toggle l u)\<rparr>)) c u
    = Some ((json_db (db\<lparr>upvotes := (upvotes db)(c \<mapsto> toggle l u)\<rparr>))
               \<lparr>upvotes := (upvotes db)(c \<mapsto> toggle (toggle l u) u)\<rparr>,
            toggle (toggle l u) u)"
  by (simp add: toggle_upvote_def json_db_simps array_at_def)

lemma put_comment_array:
  "fst (validateSession now s) \<Longrightarrow> array_at (upvotes db) c = Some l \<Longrightarrow>
    put_comment now db c s
     = (\<lparr>status = 200, body = Upvotes (toggle l (session_user_id s))\<rparr>,
        Some (json_db (db\<lparr>upvotes := (upvotes db)(c \<mapsto> toggle l (session_user_id s))\<rparr>)))"
  by (simp add: put_comment_def toggle_upvote_array)

lemma put_comment_inherited:
  "fst (validateSession now s) \<Longrightarrow> array_at (upvotes db) c = None \<Longrightarrow>
    put_comment now db c s = (\<lparr>status = 500, body = Thrown ''TypeError''\<rparr>, None)"
  by (simp add: put_comment_def toggle_upvote_def)

lemma put_comment_ignores_comments:
  "fst (put_comment now (db\<lparr>comments := cm\<rparr>) c s) = fst (put_comment now db c s)"
  by (simp add: put_comment_def toggle_upvote_def split: option.splits)


text \<open>
  Claim C2, on the code. When the ledger read gives an array (the ledger holds the comment
  id itself, or the id is no name of \<^verbatim>\<open>Object.prototype\<close>), the toggle removes the user
  from the voters when the user is among them and adds the user otherwise; the voters that
  result are stored under the comment id and returned with status 200; a second toggle gives
  back the original voter set; a user who has not voted is appended once, and a list without
  repetition stays so. The comments of the document play no part in the response. When the
  ledger does not hold the comment id and the id names a property of \<^verbatim>\<open>Object.prototype\<close>
  (\<^verbatim>\<open>constructor\<close> on the empty document), the handler throws: status 500, nothing
  written and no voter added.
\<close>

theorem C2_toggle_upvote:
  "(array_at (upvotes db) c = Some l \<longrightarrow>
      toggle_upvote db c u = Some (db\<lparr>upvotes := (upvotes db)(c \<mapsto> toggle l u)\<rparr>, toggle l u)
      \<and> set (toggle l u) = (if u \<in> set l then set l - {u} else insert u (set l))
      \<and> set (toggle (toggle l u) u) = set l
      \<and> toggle_upvote (json_db (db\<lparr>upvotes := (upvotes db)(c \<mapsto> toggle l u)\<rparr>)) c u
          = Some ((json_db (db\<lparr>upvotes := (upvotes db)(c \<mapsto> toggle l u)\<rparr>))
                     \<lparr>upvotes := (upvotes db)(c \<mapsto> toggle (toggle l u) u)\<rparr>,
                  toggle (toggle l u) u)
      \<and> (u \<notin> set l \<longrightarrow> toggle l u = l @ [u] \<and> count_list (toggle l u) u = 1)
      \<and> (distinct l \<longrightarrow> distinct (toggle l u))
      \<and> (fst (validateSession now s) \<longrightarrow>
            put_comment now db c s
             = (\<lparr>status = 200, body = Upvotes (toggle l (session_user_id s))\<rparr>,
                Some (json_db (db\<lparr>upvotes := (upvotes db)(c \<mapsto> toggle l (session_user_id s))\<rparr>))))
      \<and> voters db c = set l
      \<and> voters (json_db (db\<lparr>upvotes := (upvotes db)(c \<mapsto> toggle l u)\<rparr>)) c
          = (if u \<in> voters db c then voters db c - {u} else insert u (voters db c)))
   \<and> fst (put_comment now (db\<lparr>comments := cm\<rparr>) c s) = fst (put_comment now db c s)
   \<and> (array_at (upvotes db) c = None \<longrightarrow> fst (validateSession now s) \<longrightarrow>
        put_comment now db c s = (\<lparr>status = 500, body = Thrown ''TypeError''\<rparr>, None))
   \<and> put_comment 999 empty_db ''constructor'' (example_session ''u1'')
       = (\<lparr>status = 500, body = Thrown ''TypeError''\<rparr>, None)
   \<and> put_comment 999 empty_db ''X'' (example_session ''u1'')
       = (\<lparr>status = 200, body = Upvotes [''u1'']\<rparr>,
          Some \<lparr>comments = Map.empty, upvotes = [''X'' \<mapsto> [''u1'']]\<rparr>)"
proof -
  have v: "fst (validateSession 999 (example_session ''u1''))"
    by (simp add: example_session_valid)
  have "array_at (upvotes empty_db) ''constructor'' = None"
    by (simp add: array_at_def empty_db_def object_prototype_keys_def)
  with v have bad: "put_comment 999 empty_db ''constructor'' (example_session ''u1'')
       = (\<lparr>status = 500, body = Thrown ''TypeError''\<rparr>, None)"
    by (rule put_comment_inherited)
  have "array_at (upvotes empty_db) ''X'' = Some []"
    by (simp add: array_at_def empty_db_def object_prototype_keys_def)
  from put_comment_array [OF v this]
  have good: "put_comment 999 empty_db ''X'' (example_session ''u1'')
       = (\<lparr>status = 200, body = Upvotes [''u1'']\<rparr>,
          Some \<lparr>comments = Map.empty, upvotes = [''X'' \<mapsto> [''u1'']]\<rparr>)"
    by (simp add: example_session_user toggle_def json_db_def empty_db_def)
  have vs: "voters db c = set l
      \<and> voters (json_db (db\<lparr>upvotes := (upvotes db)(c \<mapsto> toggle l u)\<rparr>)) c
          = (if u \<in> voters db c then voters db c - {u} else insert u (voters db c))"
    if "array_at (upvotes db) c = Some l"
    using array_at_or_empty [OF that]
    by (simp add: voters_def json_db_simps or_empty_simps toggle_set)
  show ?thesis
    using vs toggle_upvote_array [of db c l u] toggle_set [of l u] toggle_toggle_set [of l u]
      toggle_upvote_twice [of db c l u] toggle_absent [of u l] toggle_distinct [of l u]
      put_comment_array [of now s db c l] put_comment_ignores_comments [where now = now and db = db and cm = cm and c = c and s = s]
      put_comment_inherited [of now s db c] bad good
    by blast
qed

theorem C2_witness:
  "array_at (upvotes (empty_db\<lparr>upvotes := [''X'' \<mapsto> [''u2'']]\<rparr>)) ''X'' = Some [''u2'']
   \<and> ''u1'' \<notin> set [''u2'']
   \<and> distinct [''u2'']
   \<and> fst (validateSession 999 (example_session ''u1''))
   \<and> put_comment 999 (empty_db\<lparr>upvotes := [''X'' \<mapsto> [''u2'']]\<rparr>) ''X'' (example_session ''u1'')
       = (\<lparr>status = 200, body = Upvotes [''u2'', ''u1'']\<rparr>,
          Some \<lparr>comments = Map.empty, upvotes = [''X'' \<mapsto> [''u2'', ''u1'']]\<rparr>)
   \<and> count_list (toggle [''u2''] ''u1'') ''u1'' = 1
   \<and> set (toggle (toggle [''u2''] ''u1'') ''u1'') = {''u2''}
   \<and> array_at (upvotes (empty_db\<lparr>upvotes := [''X'' \<mapsto> [''u2'']]\<rparr>)) ''toString'' = None
   \<and> put_comment 999 (empty_db\<lparr>upvotes := [''X'' \<mapsto> [''u2'']]\<rparr>) ''toString'' (example_session ''u1'')
       = (\<lparr>status = 500, body = Thrown ''TypeError''\<rparr>, None)"
proof -
  let ?db = "empty_db\<lparr>upvotes := [''X'' \<mapsto> [''u2'']]\<rparr>"
  have a: "array_at (upvotes ?db) ''X'' = Some [''u2'']"
    by (simp add: array_at_def)
  have n: "array_at (upvotes ?db) ''toString'' = None"
    by (simp add: array_at_def object_prototype_keys_def)
  have v: "fst (validateSession 999 (example_session ''u1''))"
    by (simp add: example_session_valid)
  note good = C2_toggle_upvote [where db = ?db and c = "''X''" and l = "[''u2'']" and u = "''u1''"
      and now = 999 and s = "example_session ''u1''" and cm = Map.empty]
  note bad = C2_toggle_upvote [where db = ?db and c = "''toString''" and l = "[]" and u = "''u1''"
      and now = 999 and s = "example_session ''u1''" and cm = Map.empty]
  from good a v have "put_comment 999 ?db ''X'' (example_session ''u1'')
       = (\<lparr>status = 200, body = Upvotes (toggle [''u2''] (session_user_id (example_session ''u1'')))\<rparr>,
          Some (json_db (?db\<lparr>upvotes := (upvotes ?db)(''X'' \<mapsto>
                   toggle [''u2''] (session_user_id (example_session ''u1'')))\<rparr>)))"
    by blast
  then have p: "put_comment 999 ?db ''X'' (example_session ''u1'')
       = (\<lparr>status = 200, body = Upvotes [''u2'', ''u1'']\<rparr>,
          Some \<lparr>comments = Map.empty, upvotes = [''X'' \<mapsto> [''u2'', ''u1'']]\<rparr>)"
    by (simp add: example_session_user toggle_def json_db_def empty_db_def)
  have ni: "''u1'' \<notin> set [''u2'']" by simp
  note g = good [THEN conjunct1, THEN mp, OF a]
  from g [THEN conjunct2, THEN conjunct2, THEN conjunct2, THEN conjunct2, THEN conjunct1,
          THEN mp, OF ni, THEN conjunct2]
  have c: "count_list (toggle [''u2''] ''u1'') ''u1'' = 1" .
  from g [THEN conjunct2, THEN conjunct2, THEN conjunct1]
  have t: "set (toggle (toggle [''u2''] ''u1'') ''u1'') = {''u2''}" by simp
  from bad n v have b: "put_comment 999 ?db ''toString'' (example_session ''u1'')
       = (\<lparr>status = 500, body = Thrown ''TypeError''\<rparr>, None)"
    by blast
  from a ni v p c t n b show ?thesis by simp
qed

lemma delete_comment_invalid:
  "\<not> fst (validateSession now s) \<Longrightarrow>
    delete_comment now users db m c s = (\<lparr>status = 401, body = Error ''Unauthorized''\<rparr>, None)"
  by (simp add: delete_comment_def)

lemma delete_comment_not_admin:
  "fst (validateSession now s) \<Longrightarrow> \<not> admin_session users s \<Longrightarrow>
    delete_comment now users db m c s = (\<lparr>status = 403, body = Error ''Forbidden''\<rparr>, None)"
  by (auto simp: delete_comment_def admin_session_def split: option.splits)

text \<open>
  Claim C5, as the code has it. A session that fails validation is answered 401
  Unauthorized, whoever it names; a session that passes validation and does not name a user
  stored with the administrative role is answered 403 Forbidden. In both cases the delete
  operation writes nothing, so the persisted document is the one before.
\<close>

theorem C5_delete_needs_admin:
  "(\<not> fst (validateSession now s) \<longrightarrow>
      delete_comment now users db m c s = (\<lparr>status = 401, body = Error ''Unauthorized''\<rparr>, None))
   \<and> (fst (validateSession now s) \<longrightarrow> \<not> admin_session users s \<longrightarrow>
      delete_comment now users db m c s = (\<lparr>status = 403, body = Error ''Forbidden''\<rparr>, None))
   \<and> (\<not> fst (validateSession now s) \<or> \<not> admin_session users s \<longrightarrow>
      snd (delete_comment now users db m c s) = None
      \<and> persisted db (delete_comment now users db m c s) = db)"
  using delete_comment_invalid [of now s users db m c] delete_comment_not_admin [of now s users db m c]
  by (cases "fst (validateSession now s)") (auto simp: persisted_def)

theorem C5_witness:
  "\<not> admin_session example_users (example_session ''u1'')
   \<and> fst (validateSession 999 (example_session ''u1''))
   \<and> delete_comment 999 example_users example_db ''m1'' ''A'' (example_session ''u1'')
      = (\<lparr>status = 403, body = Error ''Forbidden''\<rparr>, None)
   \<and> persisted example_db
        (delete_comment 999 example_users example_db ''m1'' ''A'' (example_session ''u1'')) = example_db
   \<and> admin_session example_users (example_session ''a1'')
   \<and> \<not> fst (validateSession 1000 (example_session ''a1''))
   \<and> delete_comment 1000 example_users example_db ''m1'' ''A'' (example_session ''a1'')
      = (\<lparr>status = 401, body = Error ''Unauthorized''\<rparr>, None)
   \<and> persisted example_db
        (delete_comment 1000 example_users example_db ''m1'' ''A'' (example_session ''a1'')) = example_db"
proof -
  have a: "\<not> admin_session example_users (example_session ''u1'')"
    "admin_session example_users (example_session ''a1'')"
    by (simp_all add: admin_session_def example_session_user example_users_def)
  have v: "fst (validateSession 999 (example_session ''u1''))"
    "\<not> fst (validateSession 1000 (example_session ''a1''))"
    by (simp_all add: example_session_valid example_session_expired)
  note u = C5_delete_needs_admin [of 999 "example_session ''u1''" example_users example_db "''m1''" "''A''"]
  note e = C5_delete_needs_admin [of 1000 "example_session ''a1''" example_users example_db "''m1''" "''A''"]
  from u a(1) v(1) have u1: "delete_comment 999 example_users example_db ''m1'' ''A'' (example_session ''u1'')
      = (\<lparr>status = 403, body = Error ''Forbidden''\<rparr>, None)"
    and u2: "persisted example_db
        (delete_comment 999 example_users example_db ''m1'' ''A'' (example_session ''u1'')) = example_db"
    by blast+
  from e v(2) have e1: "delete_comment 1000 example_users example_db ''m1'' ''A'' (example_session ''a1'')
      = (\<lparr>status = 401, body = Error ''Unauthorized''\<rparr>, None)"
    and e2: "persisted example_db
        (delete_comment 1000 example_users example_db ''m1'' ''A'' (example_session ''a1'')) = example_db"
    by blast+
  from a v u1 u2 e1 e2 show ?thesis by (intro conjI)
qed

text \<open>
  Claim C5 as stated fails for a session that does not pass validation: the expired session
  of a user without the administrative role is answered 401 Unauthorized, not 403.
\<close>

theorem C5_counterexample:
  "\<not> admin_session example_users (example_session ''u1'')
   \<and> \<not> fst (validateSession 1000 (example_session ''u1''))
   \<and> delete_comment 1000 example_users example_db ''m1'' ''A'' (example_session ''u1'')
       = (\<lparr>status = 401, body = Error ''Unauthorized''\<rparr>, None)"
proof -
  have a: "\<not> admin_session example_users (example_session ''u1'')"
    by (simp add: admin_session_def example_session_user example_users_def)
  have v: "\<not> fst (validateSession 1000 (example_session ''u1''))"
    by (rule example_session_expired)
  from v have "delete_comment 1000 example_users example_db ''m1'' ''A'' (example_session ''u1'')
       = (\<lparr>status = 401, body = Error ''Unauthorized''\<rparr>, None)"
    by (rule delete_comment_invalid)
  with a v show ?thesis by simp
qed

section \<open>Properties of adding a comment and of the comment routes\<close>

lemma json_roundtrip_undefined: "json_roundtrip v = JUndefined \<longleftrightarrow> v = JUndefined"
  by (cases v) (auto split: jsnum.splits)


lemma json_roundtrip_idem: "json_roundtrip (json_roundtrip v) = json_roundtrip v"
proof (induction v)
  case (JArr vs)
  have "(if json_roundtrip (if json_roundtrip v = JUndefined then JNull else json_roundtrip v) = JUndefined
         then JNull
         else json_roundtrip (if json_roundtrip v = JUndefined then JNull else json_roundtrip v))
      = (if json_roundtrip v = JUndefined then JNull else json_roundtrip v)"
    if "v \<in> set vs" for v
    using JArr.IH [OF that] by (cases "json_roundtrip v = JUndefined") simp_all
  then show ?case
    by (simp add: comp_def)
next
  case (JObj kvs)
  have "map (map_prod id json_roundtrip) (filter (\<lambda>(k, v). v \<noteq> JUndefined) (map (map_prod id json_roundtrip) kvs))
      = filter (\<lambda>(k, v). v \<noteq> JUndefined) (map (map_prod id json_roundtrip) kvs)"
  proof (rule map_idI)
    fix kv assume "kv \<in> set (filter (\<lambda>(k, v). v \<noteq> JUndefined) (map (map_prod id json_roundtrip) kvs))"
    then obtain k v where "(k, v) \<in> set kvs" "kv = (k, json_roundtrip v)"
      by auto
    with JObj.IH [of "(k, v)" v] show "map_prod id json_roundtrip kv = kv"
      by simp
  qed
  then show ?case by simp
qed (auto split: jsnum.splits)

lemma json_comment_idem: "json_comment (json_comment c) = json_comment c"
  by (simp add: json_comment_def json_roundtrip_idem)

lemma json_comment_fields:
  "id_c (json_comment c) = id_c c" "parentId (json_comment c) = parentId c"
  "rating (json_comment c) = json_roundtrip (rating c)" "date (json_comment c) = date c"
  by (simp_all add: json_comment_def)

lemma post_comment_ok:
  "fst (validateSession now s) \<Longrightarrow> find (\<lambda>u. id_u u = session_user_id s) users = Some usr
    \<Longrightarrow> array_at (comments db) m = Some cs
    \<Longrightarrow> post_comment now t1 t2 users db m d s
         = (\<lparr>status = 201, body = Created (json_comment (newComment t1 t2 usr d))\<rparr>,
            Some (json_db (db\<lparr>comments := (comments db)(m \<mapsto> cs @ [newComment t1 t2 usr d])\<rparr>)))"
  by (simp add: post_comment_def Let_def)

lemma post_comment_inherited:
  "fst (validateSession now s) \<Longrightarrow> find (\<lambda>u. id_u u = session_user_id s) users = Some usr
    \<Longrightarrow> array_at (comments db) m = None
    \<Longrightarrow> post_comment now t1 t2 users db m d s = (\<lparr>status = 500, body = Thrown ''TypeError''\<rparr>, None)"
  by (simp add: post_comment_def)


lemma post_comment_written:
  assumes "post_comment now t1 t2 users db m d s = (r, Some db')"
  shows "\<exists>usr. body r = Created (json_comment (newComment t1 t2 usr d))
           \<and> comments db' m
               = Some (map json_comment (or_empty (comments db m)) @ [json_comment (newComment t1 t2 usr d)])"
proof -
  from assms obtain usr cs where
    a: "array_at (comments db) m = Some cs"
    and r: "r = \<lparr>status = 201, body = Created (json_comment (newComment t1 t2 usr d))\<rparr>"
    and w: "db' = json_db (db\<lparr>comments := (comments db)(m \<mapsto> cs @ [newComment t1 t2 usr d])\<rparr>)"
    by (auto simp: post_comment_def Let_def split: if_splits option.splits)
  from a have "or_empty (comments db m) = cs" by (rule array_at_or_empty)
  with r w have "body r = Created (json_comment (newComment t1 t2 usr d))
      \<and> comments db' m
          = Some (map json_comment (or_empty (comments db m)) @ [json_comment (newComment t1 t2 usr d)])"
    by (simp add: json_db_simps)
  then show ?thesis by blast
qed



lemma decimal_5: "decimal 5 = ''5''"
  by (simp add: decimal.simps)


lemma array_at_example: "array_at (comments empty_db) ''m1'' = Some []"
  by (simp add: array_at_def empty_db_def object_prototype_keys_def)

lemma find_example:
  "find (\<lambda>u. id_u u = session_user_id (example_session ''u1'')) example_users
    = Some \<lparr>id_u = ''u1'', name_u = ''Ann'', role = ''user''\<rparr>"
  "find (\<lambda>u. id_u u = session_user_id (example_session ''a1'')) example_users
    = Some \<lparr>id_u = ''a1'', name_u = ''Bo'', role = ''admin''\<rparr>"
  by (simp_all add: example_session_user example_users_def)





text \<open>
  Claim C9, on the code. The id of a new comment is the text \<^verbatim>\<open>comment_\<close> followed by the
  clock reading, so two invocations that read the same millisecond produce the same id:
  after both, the movie's list holds two comments with one id.
\<close>

theorem C9_same_clock_reading_same_id:
  "id_c (newComment t a1 usr1 d1) = id_c (newComment t a2 usr2 d2)
   \<and> (post_comment now t a1 users db m d1 s = (r1, Some db1) \<longrightarrow>
        post_comment now' t a2 users db1 m d2 s' = (r2, Some db2) \<longrightarrow>
        (\<exists>c1 c2. body r1 = Created c1 \<and> body r2 = Created c2 \<and> id_c c1 = id_c c2
           \<and> or_empty (comments db2 m) = map json_comment (or_empty (comments db m)) @ [c1, c2]
           \<and> \<not> distinct (map id_c (or_empty (comments db2 m)))))"
proof (intro conjI impI)
  show ids: "id_c (newComment t a1 usr1 d1) = id_c (newComment t a2 usr2 d2)"
    for a1 usr1 d1 a2 usr2 d2
    by (simp add: newComment_def)
  assume p1: "post_comment now t a1 users db m d1 s = (r1, Some db1)"
    and p2: "post_comment now' t a2 users db1 m d2 s' = (r2, Some db2)"
  from post_comment_written [OF p1] obtain u1 where
    1: "body r1 = Created (json_comment (newComment t a1 u1 d1))"
    "comments db1 m = Some (map json_comment (or_empty (comments db m)) @ [json_comment (newComment t a1 u1 d1)])"
    by blast
  from post_comment_written [OF p2] obtain u2 where
    2: "body r2 = Created (json_comment (newComment t a2 u2 d2))"
    "comments db2 m = Some (map json_comment (or_empty (comments db1 m)) @ [json_comment (newComment t a2 u2 d2)])"
    by blast
  have "id_c (json_comment (newComment t a1 u1 d1)) = id_c (json_comment (newComment t a2 u2 d2))"
    by (simp add: json_comment_fields ids)
  moreover from 1(2) 2(2) have "or_empty (comments db2 m)
      = map json_comment (or_empty (comments db m))
          @ [json_comment (newComment t a1 u1 d1), json_comment (newComment t a2 u2 d2)]"
    by (simp add: or_empty_simps json_comment_idem comp_def)
  ultimately have "body r1 = Created (json_comment (newComment t a1 u1 d1))
      \<and> body r2 = Created (json_comment (newComment t a2 u2 d2))
      \<and> id_c (json_comment (newComment t a1 u1 d1)) = id_c (json_comment (newComment t a2 u2 d2))
      \<and> or_empty (comments db2 m)
          = map json_comment (or_empty (comments db m))
              @ [json_comment (newComment t a1 u1 d1), json_comment (newComment t a2 u2 d2)]
      \<and> \<not> distinct (map id_c (or_empty (comments db2 m)))"
    using 1(1) 2(1) by simp
  then show "\<exists>c1 c2. body r1 = Created c1 \<and> body r2 = Created c2 \<and> id_c c1 = id_c c2
           \<and> or_empty (comments db2 m) = map json_comment (or_empty (comments db m)) @ [c1, c2]
           \<and> \<not> distinct (map id_c (or_empty (comments db2 m)))"
    by blast
qed

theorem C9_witness:
  "post_comment 5 5 5 example_users empty_db ''m1''
      \<lparr>parentId_d = None, comment_d = ''first'', rating_d = JUndefined\<rparr> (example_session ''u1'')
    = (\<lparr>status = 201,
        body = Created \<lparr>id_c = ''comment_5'', parentId = None, reviewer = ''Ann'', userId = ''u1'',
                         comment_c = ''first'', date = 5, rating = JUndefined\<rparr>\<rparr>,
       Some \<lparr>comments = [''m1'' \<mapsto> [\<lparr>id_c = ''comment_5'', parentId = None, reviewer = ''Ann'',
                         userId = ''u1'', comment_c = ''first'', date = 5, rating = JUndefined\<rparr>]],
             upvotes = Map.empty\<rparr>)
   \<and> (\<exists>r2 db2. post_comment 5 5 5 example_users
          \<lparr>comments = [''m1'' \<mapsto> [\<lparr>id_c = ''comment_5'', parentId = None, reviewer = ''Ann'',
                         userId = ''u1'', comment_c = ''first'', date = 5, rating = JUndefined\<rparr>]],
           upvotes = Map.empty\<rparr> ''m1''
          \<lparr>parentId_d = None, comment_d = ''second'', rating_d = JUndefined\<rparr> (example_session ''a1'')
        = (r2, Some db2)
        \<and> map id_c (or_empty (comments db2 ''m1'')) = [''comment_5'', ''comment_5''])"
proof -
  let ?u = "\<lparr>id_u = ''u1'', name_u = ''Ann'', role = ''user''\<rparr>"
  let ?a = "\<lparr>id_u = ''a1'', name_u = ''Bo'', role = ''admin''\<rparr>"
  let ?d1 = "\<lparr>parentId_d = None, comment_d = ''first'', rating_d = JUndefined\<rparr>"
  let ?d2 = "\<lparr>parentId_d = None, comment_d = ''second'', rating_d = JUndefined\<rparr>"
  let ?c1 = "\<lparr>id_c = ''comment_5'', parentId = None, reviewer = ''Ann'', userId = ''u1'',
              comment_c = ''first'', date = 5, rating = JUndefined\<rparr>"
  let ?db1 = "\<lparr>comments = [''m1'' \<mapsto> [?c1]], upvotes = Map.empty\<rparr>"
  have v: "fst (validateSession 5 (example_session ''u1''))"
    "fst (validateSession 5 (example_session ''a1''))"
    by (simp_all add: validateSession_def example_session_def)
  have c1: "json_comment (newComment 5 5 ?u ?d1) = ?c1"
    by (simp add: json_comment_def newComment_def truthy_str_def string_of_time_def decimal_5
          sanitize_def replace_all_def)
  have "json_db (empty_db\<lparr>comments := (comments empty_db)(''m1'' \<mapsto> [] @ [newComment 5 5 ?u ?d1])\<rparr>)
      = \<lparr>comments = [''m1'' \<mapsto> [json_comment (newComment 5 5 ?u ?d1)]], upvotes = Map.empty\<rparr>"
    by (simp add: json_db_def empty_db_def fun_eq_iff)
  with post_comment_ok [OF v(1) find_example(1) array_at_example, of 5 5 ?d1] c1
  have p1: "post_comment 5 5 5 example_users empty_db ''m1'' ?d1 (example_session ''u1'')
      = (\<lparr>status = 201, body = Created ?c1\<rparr>, Some ?db1)"
    by simp
  have a2: "array_at (comments ?db1) ''m1'' = Some [?c1]"
    by (simp add: array_at_def)
  from post_comment_ok [OF v(2) find_example(2) a2, of 5 5 ?d2]
  obtain r2 db2 where p2: "post_comment 5 5 5 example_users ?db1 ''m1'' ?d2 (example_session ''a1'')
      = (r2, Some db2)"
    by blast
  from C9_same_clock_reading_same_id [THEN conjunct2, THEN mp, OF p1, THEN mp, OF p2]
  obtain x y where "Created ?c1 = Created x" "id_c x = id_c y"
    "or_empty (comments db2 ''m1'') = map json_comment (or_empty (comments empty_db ''m1'')) @ [x, y]"
    by auto
  then have "map id_c (or_empty (comments db2 ''m1'')) = [''comment_5'', ''comment_5'']"
    by (auto simp: empty_db_def or_empty_simps)
  with p2 have "\<exists>r2 db2. post_comment 5 5 5 example_users ?db1 ''m1'' ?d2 (example_session ''a1'')
        = (r2, Some db2)
        \<and> map id_c (or_empty (comments db2 ''m1'')) = [''comment_5'', ''comment_5'']"
    by (intro exI conjI)
  with p1 show ?thesis by (intro conjI)
qed


lemma handler_statuses:
  "status (fst (post_comment now t1 t2 users db m d s)) \<in> {401, 404, 500, 201}"
  "status (fst (put_comment now db c s)) \<in> {401, 500, 200}"
  "status (fst (delete_comment now users db m c s)) \<in> {401, 403, 500, 200}"
  by (auto simp: post_comment_def put_comment_def delete_comment_def Let_def
           split: option.splits prod.splits)

lemma comments_router_status: "status (fst (comments_router now t1 t2 users srv req)) \<noteq> 429"
proof (cases req)
  case (Post m d s)
  then show ?thesis
    using handler_statuses(1) [of now t1 t2 users "commentsDb srv" m d s]
    by (auto simp: comments_router_def Let_def)
next
  case (Put c s)
  then show ?thesis
    using handler_statuses(2) [of now "commentsDb srv" c s]
    by (auto simp: comments_router_def Let_def)
next
  case (Delete m c s)
  then show ?thesis
    using handler_statuses(3) [of now users "commentsDb srv" m c s]
    by (auto simp: comments_router_def Let_def)
qed

lemma comments_router_limiter:
  "userRequests (snd (comments_router now t1 t2 users srv req)) = userRequests srv"
  "comments_router now t1 t2 users (srv\<lparr>userRequests := reqs\<rparr>) req
    = (fst (comments_router now t1 t2 users srv req),
       (snd (comments_router now t1 t2 users srv req))\<lparr>userRequests := reqs\<rparr>)"
  by (cases req; simp add: comments_router_def Let_def)+

lemma downloader_guard_limited:
  "fst (auth_validateSession now s) \<Longrightarrow> fst (checkRateLimit now' reqs (session_user_id s))
    \<Longrightarrow> downloader_guard now now' reqs s = (Some 429, reqs)"
  by (auto simp: downloader_guard_def session_user_id_def checkRateLimit_def Let_def
           split: prod.splits if_splits)

lemma ceiling_example:
  "fst (checkRateLimit 21 [''u1'' \<mapsto> [1..20], ''a1'' \<mapsto> [1..20]] ''u1'')"
  "fst (checkRateLimit 21 [''u1'' \<mapsto> [1..20], ''a1'' \<mapsto> [1..20]] ''a1'')"
  by (simp_all add: checkRateLimit_unfold or_empty_def filter_id_conv)

lemma comments_router_applied:
  "fst (validateSession now s) \<Longrightarrow> array_at (upvotes (commentsDb srv)) c = Some l \<Longrightarrow>
    comments_router now t1 t2 users srv (Put c s)
      = (\<lparr>status = 200, body = Upvotes (toggle l (session_user_id s))\<rparr>,
         srv\<lparr>commentsDb := json_db ((commentsDb srv)
                 \<lparr>upvotes := (upvotes (commentsDb srv))(c \<mapsto> toggle l (session_user_id s))\<rparr>)\<rparr>)"
  "fst (validateSession now s) \<Longrightarrow> find (\<lambda>u. id_u u = session_user_id s) users = Some usr \<Longrightarrow>
    array_at (comments (commentsDb srv)) m = Some cs \<Longrightarrow>
    comments_router now t1 t2 users srv (Post m d s)
      = (\<lparr>status = 201, body = Created (json_comment (newComment t1 t2 usr d))\<rparr>,
         srv\<lparr>commentsDb := json_db ((commentsDb srv)
                 \<lparr>comments := (comments (commentsDb srv))(m \<mapsto> cs @ [newComment t1 t2 usr d])\<rparr>)\<rparr>)"
  "fst (validateSession now s) \<Longrightarrow> admin_session users s \<Longrightarrow>
    cascade_delete (commentsDb srv) m c = Some db' \<Longrightarrow>
    comments_router now t1 t2 users srv (Delete m c s)
      = (\<lparr>status = 200, body = Success\<rparr>, srv\<lparr>commentsDb := json_db db'\<rparr>)"
proof -
  show "fst (validateSession now s) \<Longrightarrow> array_at (upvotes (commentsDb srv)) c = Some l \<Longrightarrow>
    comments_router now t1 t2 users srv (Put c s)
      = (\<lparr>status = 200, body = Upvotes (toggle l (session_user_id s))\<rparr>,
         srv\<lparr>commentsDb := json_db ((commentsDb srv)
                 \<lparr>upvotes := (upvotes (commentsDb srv))(c \<mapsto> toggle l (session_user_id s))\<rparr>)\<rparr>)"
    by (simp add: comments_router_def put_comment_array persisted_def)
  show "fst (validateSession now s) \<Longrightarrow> find (\<lambda>u. id_u u = session_user_id s) users = Some usr \<Longrightarrow>
    array_at (comments (commentsDb srv)) m = Some cs \<Longrightarrow>
    comments_router now t1 t2 users srv (Post m d s)
      = (\<lparr>status = 201, body = Created (json_comment (newComment t1 t2 usr d))\<rparr>,
         srv\<lparr>commentsDb := json_db ((commentsDb srv)
                 \<lparr>comments := (comments (commentsDb srv))(m \<mapsto> cs @ [newComment t1 t2 usr d])\<rparr>)\<rparr>)"
    by (simp add: comments_router_def post_comment_ok persisted_def)
  assume "fst (validateSession now s)" "admin_session users s"
    "cascade_delete (commentsDb srv) m c = Some db'"
  then have "delete_comment now users (commentsDb srv) m c s
      = (\<lparr>status = 200, body = Success\<rparr>, Some (json_db db'))"
    by (auto simp: delete_comment_def admin_session_def split: option.splits)
  then show "comments_router now t1 t2 users srv (Delete m c s)
      = (\<lparr>status = 200, body = Success\<rparr>, srv\<lparr>commentsDb := json_db db'\<rparr>)"
    by (simp add: comments_router_def persisted_def)
qed

text \<open>
  Claim C4, as the code has it. No mutating comment operation is admitted through the rate
  limiter. A toggle, create or delete request of a caller whom the limiter rejects (20 or
  more requests inside the trailing 60 seconds) is applied like any other: with a valid
  session (of a stored user for create, of an administrator for delete) and a ledger or
  list that can be read it is answered 200 or 201 and its result is written. Whatever the
  request history holds, a request to a comment route gets the response and has the effect
  on the document that it has with any other history, it is never answered with the
  rate-limit status 429, and it leaves the history as it was.
\<close>

theorem C4_comment_routes_not_rate_limited:
  "status (fst (comments_router now t1 t2 users srv req)) \<noteq> 429
   \<and> userRequests (snd (comments_router now t1 t2 users srv req)) = userRequests srv
   \<and> comments_router now t1 t2 users (srv\<lparr>userRequests := reqs\<rparr>) req
       = (fst (comments_router now t1 t2 users srv req),
          (snd (comments_router now t1 t2 users srv req))\<lparr>userRequests := reqs\<rparr>)
   \<and> (fst (checkRateLimit now' (userRequests srv) (session_user_id s)) \<longrightarrow>
        fst (validateSession now s) \<longrightarrow> array_at (upvotes (commentsDb srv)) c = Some l \<longrightarrow>
        comments_router now t1 t2 users srv (Put c s)
          = (\<lparr>status = 200, body = Upvotes (toggle l (session_user_id s))\<rparr>,
             srv\<lparr>commentsDb := json_db ((commentsDb srv)
                     \<lparr>upvotes := (upvotes (commentsDb srv))(c \<mapsto> toggle l (session_user_id s))\<rparr>)\<rparr>))
   \<and> (fst (checkRateLimit now' (userRequests srv) (session_user_id s)) \<longrightarrow>
        fst (validateSession now s) \<longrightarrow> find (\<lambda>u. id_u u = session_user_id s) users = Some usr \<longrightarrow>
        array_at (comments (commentsDb srv)) m = Some cs \<longrightarrow>
        comments_router now t1 t2 users srv (Post m d s)
          = (\<lparr>status = 201, body = Created (json_comment (newComment t1 t2 usr d))\<rparr>,
             srv\<lparr>commentsDb := json_db ((commentsDb srv)
                     \<lparr>comments := (comments (commentsDb srv))(m \<mapsto> cs @ [newComment t1 t2 usr d])\<rparr>)\<rparr>))
   \<and> (fst (checkRateLimit now' (userRequests srv) (session_user_id s)) \<longrightarrow>
        fst (validateSession now s) \<longrightarrow> admin_session users s \<longrightarrow>
        cascade_delete (commentsDb srv) m c = Some db' \<longrightarrow>
        comments_router now t1 t2 users srv (Delete m c s)
          = (\<lparr>status = 200, body = Success\<rparr>, srv\<lparr>commentsDb := json_db db'\<rparr>))"
  using comments_router_status [of now t1 t2 users srv req]
    comments_router_limiter(1) [of now t1 t2 users srv req]
    comments_router_limiter(2) [where srv = srv and reqs = reqs and req = req and now = now
      and ?t1.0 = t1 and ?t2.0 = t2 and users = users]
    comments_router_applied(1) [of now s srv c l t1 t2 users]
    comments_router_applied(2) [of now s users usr srv m cs t1 t2 d]
    comments_router_applied(3) [of now s users srv m c db' t1 t2]
  by (intro conjI impI)

theorem C4_witness:
  "fst (checkRateLimit 21 [''u1'' \<mapsto> [1..20], ''a1'' \<mapsto> [1..20]] ''u1'')
   \<and> fst (validateSession 21 (example_session ''u1''))
   \<and> array_at (upvotes empty_db) ''X'' = Some []
   \<and> comments_router 21 21 21 example_users
        \<lparr>userRequests = [''u1'' \<mapsto> [1..20], ''a1'' \<mapsto> [1..20]], commentsDb = empty_db\<rparr>
        (Put ''X'' (example_session ''u1''))
      = (\<lparr>status = 200, body = Upvotes [''u1'']\<rparr>,
         \<lparr>userRequests = [''u1'' \<mapsto> [1..20], ''a1'' \<mapsto> [1..20]],
          commentsDb = \<lparr>comments = Map.empty, upvotes = [''X'' \<mapsto> [''u1'']]\<rparr>\<rparr>)"
proof -
  let ?srv = "\<lparr>userRequests = [''u1'' \<mapsto> [1..20], ''a1'' \<mapsto> [1..20]], commentsDb = empty_db\<rparr>"
  have v: "fst (validateSession 21 (example_session ''u1''))"
    by (simp add: validateSession_def example_session_def)
  have a: "array_at (upvotes (commentsDb ?srv)) ''X'' = Some []"
    by (simp add: array_at_def empty_db_def object_prototype_keys_def)
  have l: "fst (checkRateLimit 21 (userRequests ?srv) (session_user_id (example_session ''u1'')))"
    by (simp add: example_session_user ceiling_example)
  from C4_comment_routes_not_rate_limited [where now = 21 and now' = 21 and ?t1.0 = 21 and ?t2.0 = 21
        and users = example_users and srv = ?srv and s = "example_session ''u1''"
        and c = "''X''" and l = "[]",
        THEN conjunct2, THEN conjunct2, THEN conjunct2, THEN conjunct1,
        THEN mp, OF l, THEN mp, OF v, THEN mp, OF a]
  have "comments_router 21 21 21 example_users ?srv (Put ''X'' (example_session ''u1''))
      = (\<lparr>status = 200, body = Upvotes [''u1'']\<rparr>,
         \<lparr>userRequests = [''u1'' \<mapsto> [1..20], ''a1'' \<mapsto> [1..20]],
          commentsDb = \<lparr>comments = Map.empty, upvotes = [''X'' \<mapsto> [''u1'']]\<rparr>\<rparr>)"
    by (simp add: example_session_user toggle_def json_db_def empty_db_def)
  with ceiling_example(1) v a show ?thesis by simp
qed

text \<open>
  Claim C4 as stated fails: a user who has 20 requests inside the window, whom the limiter
  rejects, has a toggle, a create and (as an administrator) a delete request applied.
\<close>

theorem C4_counterexample:
  "fst (checkRateLimit 21 [''u1'' \<mapsto> [1..20], ''a1'' \<mapsto> [1..20]] ''u1'')
   \<and> fst (checkRateLimit 21 [''u1'' \<mapsto> [1..20], ''a1'' \<mapsto> [1..20]] ''a1'')
   \<and> comments_router 21 21 21 example_users
        \<lparr>userRequests = [''u1'' \<mapsto> [1..20], ''a1'' \<mapsto> [1..20]], commentsDb = empty_db\<rparr>
        (Put ''X'' (example_session ''u1''))
      = (\<lparr>status = 200, body = Upvotes [''u1'']\<rparr>,
         \<lparr>userRequests = [''u1'' \<mapsto> [1..20], ''a1'' \<mapsto> [1..20]],
          commentsDb = \<lparr>comments = Map.empty, upvotes = [''X'' \<mapsto> [''u1'']]\<rparr>\<rparr>)
   \<and> status (fst (comments_router 21 21 21 example_users
        \<lparr>userRequests = [''u1'' \<mapsto> [1..20], ''a1'' \<mapsto> [1..20]], commentsDb = empty_db\<rparr>
        (Post ''m1'' \<lparr>parentId_d = None, comment_d = ''hi'', rating_d = JUndefined\<rparr>
           (example_session ''u1'')))) = 201
   \<and> map id_c (or_empty (comments (commentsDb (snd (comments_router 21 21 21 example_users
        \<lparr>userRequests = [''u1'' \<mapsto> [1..20], ''a1'' \<mapsto> [1..20]], commentsDb = empty_db\<rparr>
        (Post ''m1'' \<lparr>parentId_d = None, comment_d = ''hi'', rating_d = JUndefined\<rparr>
           (example_session ''u1''))))) ''m1'')) = [''comment_21'']
   \<and> comments_router 21 21 21 example_users
        \<lparr>userRequests = [''u1'' \<mapsto> [1..20], ''a1'' \<mapsto> [1..20]],
         commentsDb = \<lparr>comments = [''m1'' \<mapsto> [example_comment ''A'' None 1]], upvotes = Map.empty\<rparr>\<rparr>
        (Delete ''m1'' ''A'' (example_session ''a1''))
      = (\<lparr>status = 200, body = Success\<rparr>,
         \<lparr>userRequests = [''u1'' \<mapsto> [1..20], ''a1'' \<mapsto> [1..20]],
          commentsDb = \<lparr>comments = [''m1'' \<mapsto> []], upvotes = Map.empty\<rparr>\<rparr>)"
proof -
  let ?u = "\<lparr>id_u = ''u1'', name_u = ''Ann'', role = ''user''\<rparr>"
  let ?d = "\<lparr>parentId_d = None, comment_d = ''hi'', rating_d = JUndefined\<rparr>"
  let ?dbA = "\<lparr>comments = [''m1'' \<mapsto> [example_comment ''A'' None 1]], upvotes = Map.empty\<rparr>"
  have val: "fst (validateSession 21 (example_session ''u1''))"
    "fst (validateSession 21 (example_session ''a1''))"
    by (simp_all add: validateSession_def example_session_def)
  have ax: "array_at (upvotes empty_db) ''X'' = Some []"
    by (simp add: array_at_def empty_db_def object_prototype_keys_def)
  have put: "put_comment 21 empty_db ''X'' (example_session ''u1'')
      = (\<lparr>status = 200, body = Upvotes [''u1'']\<rparr>,
         Some \<lparr>comments = Map.empty, upvotes = [''X'' \<mapsto> [''u1'']]\<rparr>)"
    using put_comment_array [OF val(1) ax]
    by (simp add: example_session_user toggle_def json_db_def empty_db_def)
  have dec: "decimal 21 = ''21''"
    by (simp add: decimal.simps [of 21] decimal.simps [of 2])
  have post: "post_comment 21 21 21 example_users empty_db ''m1'' ?d (example_session ''u1'')
      = (\<lparr>status = 201, body = Created (json_comment (newComment 21 21 ?u ?d))\<rparr>,
         Some (json_db (empty_db\<lparr>comments := (comments empty_db)(''m1'' \<mapsto> [] @ [newComment 21 21 ?u ?d])\<rparr>)))"
    by (rule post_comment_ok [OF val(1) find_example(1) array_at_example])
  have run: "commentsToDelete [example_comment ''A'' None 1] ''A'' = [''A'']"
    by (simp add: commentsToDelete_def rescan.simps [of _ "[''A'']"] example_comment_def
          parent_in_def truthy_str_def)
  have "cascade_delete ?dbA ''m1'' ''A'' = Some \<lparr>comments = [''m1'' \<mapsto> []], upvotes = Map.empty\<rparr>"
    by (simp add: cascade_delete_def array_at_def run Let_def fun_eq_iff)
       (simp add: example_comment_def)
  then have del: "delete_comment 21 example_users ?dbA ''m1'' ''A'' (example_session ''a1'')
      = (\<lparr>status = 200, body = Success\<rparr>, Some \<lparr>comments = [''m1'' \<mapsto> []], upvotes = Map.empty\<rparr>)"
    using val(2) find_example(2)
    by (simp add: delete_comment_def json_db_def fun_eq_iff)
  show ?thesis
    using ceiling_example
    by (simp add: comments_router_def put post del persisted_def json_db_simps or_empty_simps
          newComment_def json_comment_def string_of_time_def dec)
qed

section \<open>Properties of the cascade delete\<close>

text \<open>
  Every document that the handlers produce from the empty one holds only comments whose
  parent id is null or a non-empty string.
\<close>

lemma stored_ok_empty_db: "stored_ok (or_empty (comments empty_db m))"
  by (simp add: stored_ok_def or_empty_def empty_db_def)

lemma newComment_parentId: "parentId (newComment t1 t2 usr d) \<noteq> Some []"
  by (simp add: newComment_def truthy_str_def split: option.splits)

lemma stored_ok_json: "stored_ok cs \<Longrightarrow> stored_ok (map json_comment cs)"
  by (simp add: stored_ok_def json_comment_fields)

lemma stored_ok_json_db:
  "stored_ok (or_empty (comments d m)) \<Longrightarrow> stored_ok (or_empty (comments (json_db d) m))"
  by (cases "comments d m") (simp_all add: json_db_simps or_empty_simps stored_ok_json)

lemma stored_ok_post_comment:
  assumes "stored_ok (or_empty (comments db m'))"
    and "post_comment now t1 t2 users db m d s = (r, Some db')"
  shows "stored_ok (or_empty (comments db' m'))"
proof -
  from assms(2) obtain usr cs where a: "array_at (comments db) m = Some cs"
    and db': "db' = json_db (db\<lparr>comments := (comments db)(m \<mapsto> cs @ [newComment t1 t2 usr d])\<rparr>)"
    by (auto simp: post_comment_def Let_def split: if_splits option.splits)
  from a have cs: "or_empty (comments db m) = cs" by (rule array_at_or_empty)
  have "stored_ok (or_empty (comments (db\<lparr>comments := (comments db)(m \<mapsto> cs @ [newComment t1 t2 usr d])\<rparr>) m'))"
  proof (cases "m' = m")
    case True
    with assms(1) cs newComment_parentId [of t1 t2 usr d] show ?thesis
      by (simp add: stored_ok_def or_empty_simps)
  next
    case False
    with assms(1) show ?thesis by simp
  qed
  then show ?thesis unfolding db' by (rule stored_ok_json_db)
qed

lemma stored_ok_put_comment:
  assumes "stored_ok (or_empty (comments db m'))"
    and "put_comment now db c s = (r, Some db')"
  shows "stored_ok (or_empty (comments db' m'))"
proof -
  from assms(2) obtain l u where "db' = json_db (db\<lparr>upvotes := (upvotes db)(c \<mapsto> l)\<rparr>)"
    by (auto simp: put_comment_def toggle_upvote_def split: if_splits option.splits)
  moreover from assms(1) have "stored_ok (or_empty (comments (db\<lparr>upvotes := (upvotes db)(c \<mapsto> l)\<rparr>) m'))" for l
    by simp
  ultimately show ?thesis by (simp only: stored_ok_json_db)
qed

lemma stored_ok_cascade_delete:
  assumes "stored_ok (or_empty (comments db m'))" and "cascade_delete db m c = Some db'"
  shows "stored_ok (or_empty (comments db' m'))"
proof -
  from assms(2) obtain cs where a: "array_at (comments db) m = Some cs"
    and db': "comments db' = (comments db)(m \<mapsto> filter (\<lambda>x. id_c x \<notin> set (commentsToDelete cs c)) cs)"
    by (auto simp: cascade_delete_def Let_def split: option.splits)
  from a have cs: "or_empty (comments db m) = cs" by (rule array_at_or_empty)
  show ?thesis
  proof (cases "m' = m")
    case True
    with assms(1) cs show ?thesis
      by (simp add: db' stored_ok_def or_empty_simps)
  next
    case False
    with assms(1) show ?thesis by (simp add: db')
  qed
qed

lemma stored_ok_delete_comment:
  assumes "stored_ok (or_empty (comments db m'))"
    and "delete_comment now users db m c s = (r, Some db')"
  shows "stored_ok (or_empty (comments db' m'))"
proof -
  from assms(2) obtain d where "cascade_delete db m c = Some d" "db' = json_db d"
    by (auto simp: delete_comment_def split: if_splits option.splits)
  with stored_ok_cascade_delete [OF assms(1)] show ?thesis
    by (simp only: stored_ok_json_db)
qed

lemma set_add_set: "set (set_add x S) = insert x (set S)"
  by (auto simp: set_add_def)

lemma scan_extends: "\<exists>ext. scan cs T = T @ ext"
proof (induction cs arbitrary: T)
  case Nil
  show ?case by simp
next
  case (Cons c cs)
  have "\<exists>e. (if parent_in c (set T) then set_add (id_c c) T else T) = T @ e"
    by (simp add: set_add_def)
  then obtain e where "(if parent_in c (set T) then set_add (id_c c) T else T) = T @ e" ..
  moreover obtain e' where "scan cs (T @ e) = (T @ e) @ e'"
    using Cons.IH by blast
  ultimately show ?case by simp
qed

lemma scan_mono: "set T \<subseteq> set (scan cs T)"
  using scan_extends [of cs T] by auto

lemma scan_length: "length T \<le> length (scan cs T)"
  using scan_extends [of cs T] by auto

lemma scan_same_length: "length (scan cs T) \<le> length T \<Longrightarrow> scan cs T = T"
  using scan_extends [of cs T] by auto

lemma scan_fixed_closed:
  "length (scan cs T) \<le> length T \<Longrightarrow> c \<in> set cs \<Longrightarrow> parent_in c (set T) \<Longrightarrow> id_c c \<in> set T"
proof (induction cs arbitrary: T)
  case Nil
  then show ?case by simp
next
  case (Cons x xs)
  let ?T = "if parent_in x (set T) then set_add (id_c x) T else T"
  have "length ?T \<le> length (scan xs ?T)" by (rule scan_length)
  with Cons.prems(1) have le: "length ?T \<le> length T" by simp
  then have same: "?T = T" by (auto simp: set_add_def split: if_splits)
  then have x: "parent_in x (set T) \<Longrightarrow> id_c x \<in> set T"
    by (auto simp: set_add_def split: if_splits)
  from Cons.prems(1) same have "length (scan xs T) \<le> length T" by simp
  from Cons.IH [OF this] Cons.prems(2,3) x show ?case by auto
qed

lemma parent_in_Some: "parent_in c S \<Longrightarrow> \<exists>p. parentId c = Some p \<and> p \<in> S"
  by (auto simp: parent_in_def split: option.splits)

lemma scan_sound:
  "set xs \<subseteq> set cs \<Longrightarrow> set T \<subseteq> descendants cs a0 \<Longrightarrow> set (scan xs T) \<subseteq> descendants cs a0"
proof (induction xs arbitrary: T)
  case Nil
  then show ?case by simp
next
  case (Cons x xs)
  have "set (if parent_in x (set T) then set_add (id_c x) T else T) \<subseteq> descendants cs a0"
  proof (cases "parent_in x (set T)")
    case True
    then obtain p where "parentId x = Some p" "p \<in> set T"
      using parent_in_Some by blast
    with Cons.prems have "id_c x \<in> descendants cs a0"
      by (auto intro: descendants.reply)
    with True Cons.prems(2) show ?thesis by (simp add: set_add_set)
  next
    case False
    with Cons.prems(2) show ?thesis by simp
  qed
  with Cons.IH [of "if parent_in x (set T) then set_add (id_c x) T else T"] Cons.prems(1)
  show ?case by simp
qed

lemma rescan_sound: "set S \<subseteq> descendants cs a0 \<Longrightarrow> set (rescan cs S) \<subseteq> descendants cs a0"
proof (induction cs S rule: rescan.induct)
  case (1 cs S)
  have s: "set (scan cs S) \<subseteq> descendants cs a0"
    using scan_sound [of cs cs S a0] "1.prems" by simp
  show ?case
  proof (cases "length S < length (scan cs S)")
    case True
    from "1.IH" [OF refl True s] True show ?thesis
      by (simp add: rescan.simps [of cs S])
  next
    case False
    with s show ?thesis by (simp add: rescan.simps [of cs S])
  qed
qed

lemma rescan_closed:
  "set S \<subseteq> set (rescan cs S)
   \<and> (\<forall>c \<in> set cs. parent_in c (set (rescan cs S)) \<longrightarrow> id_c c \<in> set (rescan cs S))"
proof (induction cs S rule: rescan.induct)
  case (1 cs S)
  show ?case
  proof (cases "length S < length (scan cs S)")
    case True
    have "rescan cs S = rescan cs (scan cs S)"
      using True by (simp add: rescan.simps [of cs S])
    with "1.IH" [OF refl True] scan_mono [of S cs] show ?thesis by auto
  next
    case False
    then have le: "length (scan cs S) \<le> length S" by simp
    then have "rescan cs S = S"
      using False scan_same_length [OF le] by (simp add: rescan.simps [of cs S])
    with scan_fixed_closed [OF le] show ?thesis by auto
  qed
qed

lemma rescan_complete:
  assumes "stored_ok cs" and "a0 \<in> set S"
  shows "descendants cs a0 \<subseteq> set (rescan cs S)"
proof
  fix x assume "x \<in> descendants cs a0"
  then show "x \<in> set (rescan cs S)"
  proof (induction rule: descendants.induct)
    case seed
    with assms(2) rescan_closed [of S cs] show ?case by auto
  next
    case (reply c p)
    from assms(1) reply.hyps have "p \<noteq> []" by (auto simp: stored_ok_def)
    with reply have "parent_in c (set (rescan cs S))"
      by (simp add: parent_in_def truthy_str_def)
    with reply.hyps(1) rescan_closed [of S cs] show ?case by blast
  qed
qed

lemma commentsToDelete_descendants:
  "stored_ok cs \<Longrightarrow> set (commentsToDelete cs a0) = descendants cs a0"
  unfolding commentsToDelete_def
  using rescan_sound [of "[a0]" cs a0] rescan_complete [of cs a0 "[a0]"]
  by (auto intro: descendants.seed)

lemma fold_delete: "fold (\<lambda>i m. m(i := None)) S m = (\<lambda>k. if k \<in> set S then None else m k)"
  by (induction S arbitrary: m) (auto simp: fun_eq_iff)




lemma cascade_delete_array:
  assumes "array_at (comments db) m = Some cs" and "stored_ok cs"
  shows "cascade_delete db m c
    = Some \<lparr>comments = (comments db)(m \<mapsto> filter (\<lambda>x. id_c x \<notin> descendants cs c) cs),
            upvotes = (\<lambda>k. if k \<in> descendants cs c then None else upvotes db k)\<rparr>"
  using assms
  by (simp add: cascade_delete_def Let_def fold_delete commentsToDelete_descendants)

lemma delete_comment_admin:
  "fst (validateSession now s) \<Longrightarrow> admin_session users s \<Longrightarrow>
    delete_comment now users db m c s
      = (case cascade_delete db m c of
           None \<Rightarrow> (\<lparr>status = 500, body = Thrown ''TypeError''\<rparr>, None)
         | Some db' \<Rightarrow> (\<lparr>status = 200, body = Success\<rparr>, Some (json_db db')))"
  by (auto simp: delete_comment_def admin_session_def split: option.splits)

lemma delete_comment_inherited:
  "fst (validateSession now s) \<Longrightarrow> admin_session users s \<Longrightarrow> array_at (comments db) m = None \<Longrightarrow>
    delete_comment now users db m c s = (\<lparr>status = 500, body = Thrown ''TypeError''\<rparr>, None)"
  by (simp add: delete_comment_admin cascade_delete_def)

lemma example_admin:
  "fst (validateSession 999 (example_session ''a1''))"
  "admin_session example_users (example_session ''a1'')"
  by (simp_all add: example_session_valid admin_session_def example_session_user example_users_def)

lemma example_thread_closure: "commentsToDelete example_thread ''A'' = [''A'', ''B'', ''C'', ''B2'']"
  by (simp add: commentsToDelete_def rescan.simps example_thread_def example_comment_def
        parent_in_def truthy_str_def set_add_def Let_def)

lemma example_delete:
  "delete_comment 999 example_users example_db ''m1'' ''A'' (example_session ''a1'')
    = (\<lparr>status = 200, body = Success\<rparr>, Some \<lparr>comments = [''m1'' \<mapsto> []], upvotes = Map.empty\<rparr>)"
proof -
  have "cascade_delete example_db ''m1'' ''A'' = Some \<lparr>comments = [''m1'' \<mapsto> []], upvotes = Map.empty\<rparr>"
    by (simp add: cascade_delete_def array_at_def example_db_def example_thread_closure Let_def
          fun_eq_iff)
       (simp add: example_thread_def example_comment_def)
  then show ?thesis
    by (simp add: delete_comment_admin [OF example_admin] json_db_def fun_eq_iff)
qed

lemma example_delete_inherited:
  "delete_comment 999 example_users example_db ''constructor'' ''A'' (example_session ''a1'')
    = (\<lparr>status = 500, body = Thrown ''TypeError''\<rparr>, None)"
proof -
  have "array_at (comments example_db) ''constructor'' = None"
    by (simp add: array_at_def example_db_def object_prototype_keys_def)
  with example_admin show ?thesis by (rule delete_comment_inherited)
qed

lemma example_delete_no_list:
  "status (fst (delete_comment 999 example_users example_db ''m2'' ''A'' (example_session ''a1''))) = 200"
  "upvotes (persisted example_db
      (delete_comment 999 example_users example_db ''m2'' ''A'' (example_session ''a1''))) ''A'' = None"
proof -
  have "commentsToDelete [] ''A'' = [''A'']"
    by (simp add: commentsToDelete_def rescan.simps [of _ "[''A'']"])
  then have "cascade_delete example_db ''m2'' ''A''
      = Some \<lparr>comments = (comments example_db)(''m2'' \<mapsto> []),
              upvotes = (upvotes example_db)(''A'' := None)\<rparr>"
    by (simp add: cascade_delete_def array_at_def example_db_def object_prototype_keys_def)
  then show "status (fst (delete_comment 999 example_users example_db ''m2'' ''A'' (example_session ''a1''))) = 200"
    and "upvotes (persisted example_db
      (delete_comment 999 example_users example_db ''m2'' ''A'' (example_session ''a1''))) ''A'' = None"
    by (simp_all add: delete_comment_admin [OF example_admin] persisted_def json_db_simps)
qed

text \<open>
  Claim C1, on the code. When the movie's list can be read (the document holds the movie id
  itself, or the id is no name of \<^verbatim>\<open>Object.prototype\<close>), the ids that an administrator's
  delete collects from a stored list are exactly the given id together with the id of every
  direct and indirect reply to it; the document written is the old one without the comments
  of the movie whose id is in that set and without the ledger entries keyed by an id of that
  set. In the scenario A, B (parent A), C (parent B), B2 (parent A) with a ledger entry for
  each, deleting A leaves the movie's list empty and the ledger without entries. When the
  document does not hold the movie id and the id names a property of \<^verbatim>\<open>Object.prototype\<close>
  (\<^verbatim>\<open>constructor\<close>), the handler throws: status 500 and nothing written, so the ledger
  entry of the comment stays, where under a movie id without a list (\<^verbatim>\<open>m2\<close>) it is removed.
\<close>

theorem C1_cascade_delete:
  "(array_at (comments db) m = Some cs \<longrightarrow> stored_ok cs \<longrightarrow>
      set (commentsToDelete cs c) = descendants cs c
      \<and> cascade_delete db m c
          = Some \<lparr>comments = (comments db)(m \<mapsto> filter (\<lambda>x. id_c x \<notin> descendants cs c) cs),
                  upvotes = (\<lambda>k. if k \<in> descendants cs c then None else upvotes db k)\<rparr>
      \<and> (fst (validateSession now s) \<longrightarrow> admin_session users s \<longrightarrow>
            delete_comment now users db m c s
              = (\<lparr>status = 200, body = Success\<rparr>,
                 Some (json_db \<lparr>comments = (comments db)(m \<mapsto> filter (\<lambda>x. id_c x \<notin> descendants cs c) cs),
                                upvotes = (\<lambda>k. if k \<in> descendants cs c then None else upvotes db k)\<rparr>))))
   \<and> (array_at (comments db) m = None \<longrightarrow> fst (validateSession now s) \<longrightarrow> admin_session users s \<longrightarrow>
        delete_comment now users db m c s = (\<lparr>status = 500, body = Thrown ''TypeError''\<rparr>, None))
   \<and> delete_comment 999 example_users example_db ''m1'' ''A'' (example_session ''a1'')
       = (\<lparr>status = 200, body = Success\<rparr>, Some \<lparr>comments = [''m1'' \<mapsto> []], upvotes = Map.empty\<rparr>)
   \<and> delete_comment 999 example_users example_db ''constructor'' ''A'' (example_session ''a1'')
       = (\<lparr>status = 500, body = Thrown ''TypeError''\<rparr>, None)
   \<and> upvotes (persisted example_db
        (delete_comment 999 example_users example_db ''constructor'' ''A'' (example_session ''a1''))) ''A''
       = Some [''u1'']
   \<and> status (fst (delete_comment 999 example_users example_db ''m2'' ''A'' (example_session ''a1''))) = 200
   \<and> upvotes (persisted example_db
        (delete_comment 999 example_users example_db ''m2'' ''A'' (example_session ''a1''))) ''A'' = None"
proof -
  have general: "set (commentsToDelete cs c) = descendants cs c
      \<and> cascade_delete db m c
          = Some \<lparr>comments = (comments db)(m \<mapsto> filter (\<lambda>x. id_c x \<notin> descendants cs c) cs),
                  upvotes = (\<lambda>k. if k \<in> descendants cs c then None else upvotes db k)\<rparr>
      \<and> (fst (validateSession now s) \<longrightarrow> admin_session users s \<longrightarrow>
            delete_comment now users db m c s
              = (\<lparr>status = 200, body = Success\<rparr>,
                 Some (json_db \<lparr>comments = (comments db)(m \<mapsto> filter (\<lambda>x. id_c x \<notin> descendants cs c) cs),
                                upvotes = (\<lambda>k. if k \<in> descendants cs c then None else upvotes db k)\<rparr>)))"
    if a: "array_at (comments db) m = Some cs" and ok: "stored_ok cs"
    using commentsToDelete_descendants [OF ok, of c] cascade_delete_array [OF a ok, of c]
    by (simp add: delete_comment_admin)
  have kept: "upvotes (persisted example_db
        (delete_comment 999 example_users example_db ''constructor'' ''A'' (example_session ''a1''))) ''A''
       = Some [''u1'']"
    by (simp add: example_delete_inherited persisted_def) (simp add: example_db_def)
  show ?thesis
    using general delete_comment_inherited [of now s users db m c] example_delete
      example_delete_inherited kept example_delete_no_list
    by (intro conjI impI) blast+
qed


theorem C1_witness:
  "stored_ok [example_comment ''C'' (Some ''B'') 30, example_comment ''D'' None 50,
              example_comment ''B2'' (Some ''A'') 40, example_comment ''B'' (Some ''A'') 20,
              example_comment ''A'' None 10]
   \<and> fst (validateSession 999 (example_session ''a1''))
   \<and> admin_session example_users (example_session ''a1'')
   \<and> descendants [example_comment ''C'' (Some ''B'') 30, example_comment ''D'' None 50,
              example_comment ''B2'' (Some ''A'') 40, example_comment ''B'' (Some ''A'') 20,
              example_comment ''A'' None 10] ''A'' = {''A'', ''B'', ''C'', ''B2''}
   \<and> delete_comment 999 example_users
        \<lparr>comments = [''m1'' \<mapsto> [example_comment ''C'' (Some ''B'') 30, example_comment ''D'' None 50,
              example_comment ''B2'' (Some ''A'') 40, example_comment ''B'' (Some ''A'') 20,
              example_comment ''A'' None 10]],
         upvotes = [''A'' \<mapsto> [''u1''], ''D'' \<mapsto> [''u2''], ''C'' \<mapsto> [''u1'']]\<rparr>
        ''m1'' ''A'' (example_session ''a1'')
       = (\<lparr>status = 200, body = Success\<rparr>,
          Some \<lparr>comments = [''m1'' \<mapsto> [example_comment ''D'' None 50]],
                upvotes = [''D'' \<mapsto> [''u2'']]\<rparr>)
   \<and> array_at (comments
        \<lparr>comments = [''m1'' \<mapsto> [example_comment ''C'' (Some ''B'') 30, example_comment ''D'' None 50,
              example_comment ''B2'' (Some ''A'') 40, example_comment ''B'' (Some ''A'') 20,
              example_comment ''A'' None 10]],
         upvotes = [''A'' \<mapsto> [''u1''], ''D'' \<mapsto> [''u2''], ''C'' \<mapsto> [''u1'']]\<rparr>) ''valueOf'' = None
   \<and> delete_comment 999 example_users
        \<lparr>comments = [''m1'' \<mapsto> [example_comment ''C'' (Some ''B'') 30, example_comment ''D'' None 50,
              example_comment ''B2'' (Some ''A'') 40, example_comment ''B'' (Some ''A'') 20,
              example_comment ''A'' None 10]],
         upvotes = [''A'' \<mapsto> [''u1''], ''D'' \<mapsto> [''u2''], ''C'' \<mapsto> [''u1'']]\<rparr>
        ''valueOf'' ''A'' (example_session ''a1'')
       = (\<lparr>status = 500, body = Thrown ''TypeError''\<rparr>, None)"
proof -
  let ?cs = "[example_comment ''C'' (Some ''B'') 30, example_comment ''D'' None 50,
              example_comment ''B2'' (Some ''A'') 40, example_comment ''B'' (Some ''A'') 20,
              example_comment ''A'' None 10]"
  let ?db = "\<lparr>comments = [''m1'' \<mapsto> ?cs],
         upvotes = [''A'' \<mapsto> [''u1''], ''D'' \<mapsto> [''u2''], ''C'' \<mapsto> [''u1'']]\<rparr>"
  have ok: "stored_ok ?cs"
    by (simp add: stored_ok_def example_comment_def)
  note v = example_admin(1) and a = example_admin(2)
  have run: "commentsToDelete ?cs ''A'' = [''A'', ''B2'', ''B'', ''C'']"
    by (simp add: commentsToDelete_def rescan.simps example_comment_def
        parent_in_def truthy_str_def set_add_def Let_def)
  have arr: "array_at (comments ?db) ''m1'' = Some ?cs"
    by (simp add: array_at_def)
  have inh: "array_at (comments ?db) ''valueOf'' = None"
    by (simp add: array_at_def object_prototype_keys_def)
  note general = C1_cascade_delete [of ?db "''m1''" ?cs "''A''" 999 "example_session ''a1''" example_users,
      THEN conjunct1, THEN mp, OF arr, THEN mp, OF ok]
  note thrown = C1_cascade_delete [of ?db "''valueOf''" ?cs "''A''" 999 "example_session ''a1''" example_users,
      THEN conjunct2, THEN conjunct1, THEN mp, OF inh, THEN mp, OF v, THEN mp, OF a]
  from general [THEN conjunct1] run
  have d: "descendants ?cs ''A'' = {''A'', ''B'', ''C'', ''B2''}"
    by auto
  have w: "json_db \<lparr>comments = (comments ?db)(''m1'' \<mapsto> filter (\<lambda>x. id_c x \<notin> {''A'', ''B'', ''C'', ''B2''}) ?cs),
                   upvotes = (\<lambda>k. if k \<in> {''A'', ''B'', ''C'', ''B2''} then None else upvotes ?db k)\<rparr>
      = \<lparr>comments = [''m1'' \<mapsto> [example_comment ''D'' None 50]], upvotes = [''D'' \<mapsto> [''u2'']]\<rparr>"
    by (simp add: json_db_def json_comment_def example_comment_def fun_eq_iff)
  from general [THEN conjunct2, THEN conjunct2, THEN mp, OF v, THEN mp, OF a]
  have del: "delete_comment 999 example_users ?db ''m1'' ''A'' (example_session ''a1'')
       = (\<lparr>status = 200, body = Success\<rparr>,
          Some \<lparr>comments = [''m1'' \<mapsto> [example_comment ''D'' None 50]],
                upvotes = [''D'' \<mapsto> [''u2'']]\<rparr>)"
    unfolding d w .
  from ok v a d del inh thrown show ?thesis by (intro conjI)
qed

section \<open>Properties of the thread builder\<close>

lemma filter_enumerate:
  "map fst (filter (\<lambda>(i, c). P c) (enumerate 0 cs)) = filter (\<lambda>j. P (cs ! j)) [0..<length cs]"
proof (induction cs rule: rev_induct)
  case Nil
  show ?case by simp
next
  case (snoc x xs)
  have "filter (\<lambda>j. P ((xs @ [x]) ! j)) [0..<length xs] = filter (\<lambda>j. P (xs ! j)) [0..<length xs]"
    by (rule filter_cong) (auto simp: nth_append)
  with snoc show ?case
    by (simp add: enumerate_append_eq)
qed

lemma fold_index:
  "fold (\<lambda>(i, c) commentMap. commentMap(id_c c \<mapsto> i)) es m p
    = (if filter (\<lambda>(i, c). id_c c = p) es = [] then m p
       else Some (fst (last (filter (\<lambda>(i, c). id_c c = p) es))))"
proof (induction es rule: rev_induct)
  case Nil
  show ?case by simp
next
  case (snoc e es)
  obtain i c where e: "e = (i, c)" by (cases e)
  from snoc show ?case
    by (cases "id_c c = p") (simp_all add: e)
qed

lemma last_or_none:
  "(case xs of [] \<Rightarrow> None | j # js \<Rightarrow> Some (last (j # js))) = (if xs = [] then None else Some (last xs))"
  by (cases xs) simp_all

lemma index_comments_eq:
  "index_comments cs p
    = (if filter (\<lambda>j. id_c (cs ! j) = p) [0..<length cs] = [] then None
       else Some (last (filter (\<lambda>j. id_c (cs ! j) = p) [0..<length cs])))"
proof -
  let ?es = "filter (\<lambda>(i, c). id_c c = p) (enumerate 0 cs)"
  have m: "map fst ?es = filter (\<lambda>j. id_c (cs ! j) = p) [0..<length cs]"
    by (rule filter_enumerate)
  have "index_comments cs p = (if ?es = [] then None else Some (fst (last ?es)))"
    unfolding index_comments_def fold_index by simp
  also have "\<dots> = (if map fst ?es = [] then None else Some (last (map fst ?es)))"
    by (simp add: last_map)
  finally show ?thesis
    unfolding m .
qed


lemma fold_link:
  "fold (link_step m) es (R, P)
    = (R @ map fst (filter (\<lambda>(i, c). lookup_parent m c = None) es),
       map (\<lambda>j. P ! j @ map fst (filter (\<lambda>(i, c). lookup_parent m c = Some j) es)) [0..<length P])"
proof (induction es arbitrary: R P)
  case Nil
  show ?case by (simp add: map_nth)
next
  case (Cons e es)
  obtain i c where e: "e = (i, c)" by (cases e)
  show ?case
  proof (cases "lookup_parent m c")
    case None
    then have "link_step m e (R, P) = (R @ [i], P)"
      by (simp add: e link_step_def)
    with None show ?thesis
      by (simp add: Cons.IH) (simp add: e)
  next
    case (Some k)
    have "map (\<lambda>j. P[k := P ! k @ [i]] ! j @ map fst (filter (\<lambda>(i, c). lookup_parent m c = Some j) es))
              [0..<length P]
        = map (\<lambda>j. P ! j @ map fst (filter (\<lambda>(i, c). lookup_parent m c = Some j) (e # es)))
              [0..<length P]"
      by (rule map_cong) (auto simp: e Some nth_list_update)
    moreover have "link_step m e (R, P) = (R, P[k := P ! k @ [i]])"
      by (simp add: e link_step_def Some)
    ultimately show ?thesis
      using Some by (simp add: Cons.IH) (simp add: e)
  qed
qed

lemma link_comments_eq:
  "link_comments cs m
    = (filter (\<lambda>i. lookup_parent m (cs ! i) = None) [0..<length cs],
       map (\<lambda>j. filter (\<lambda>i. lookup_parent m (cs ! i) = Some j) [0..<length cs]) [0..<length cs])"
  unfolding link_comments_def fold_link
  by (simp add: filter_enumerate)

lemma lookup_parent_position:
  "parentId c \<noteq> Some [] \<Longrightarrow> lookup_parent (index_comments cs) c = parent_position cs c"
  by (cases "parentId c")
     (simp_all add: lookup_parent_def parent_position_def truthy_str_def index_comments_eq
        last_or_none)

lemma parent_position_None: "parent_position cs c = None \<longleftrightarrow> \<not> resolves cs c"
proof (cases "parentId c")
  case None
  then show ?thesis by (simp add: parent_position_def resolves_def)
next
  case (Some p)
  have "filter (\<lambda>j. id_c (cs ! j) = p) [0..<length cs] = [] \<longleftrightarrow> p \<notin> id_c ` set cs"
    by (force simp: filter_empty_conv in_set_conv_nth)
  with Some show ?thesis
    by (simp add: parent_position_def resolves_def last_or_none)
qed

lemma parent_position_Some:
  assumes "parent_position cs c = Some j"
  shows "j < length cs \<and> parentId c = Some (id_c (cs ! j))
         \<and> (\<forall>k < length cs. j < k \<longrightarrow> parentId c \<noteq> Some (id_c (cs ! k)))"
proof -
  from assms obtain p where p: "parentId c = Some p"
    by (cases "parentId c") (simp_all add: parent_position_def)
  let ?js = "filter (\<lambda>j. id_c (cs ! j) = p) [0..<length cs]"
  from assms p have ne: "?js \<noteq> []" and j: "j = last ?js"
    by (simp_all add: parent_position_def last_or_none split: if_splits)
  have "j \<in> set ?js" unfolding j using ne by (rule last_in_set)
  then have 1: "j < length cs" "id_c (cs ! j) = p" by simp_all
  have "sorted ?js" by (simp add: sorted_wrt_filter)
  have 2: "k \<le> j" if "k \<in> set ?js" for k
  proof -
    from ne have "?js = butlast ?js @ [j]" using j by simp
    with \<open>sorted ?js\<close> have "sorted (butlast ?js @ [j])" by simp
    then have "\<forall>x \<in> set (butlast ?js). x \<le> j" by (simp add: sorted_append)
    moreover from that \<open>?js = butlast ?js @ [j]\<close> have "k \<in> set (butlast ?js) \<or> k = j"
      by (metis Un_iff insert_iff list.simps(15) set_append empty_set empty_iff)
    ultimately show ?thesis by auto
  qed
  have "parentId c \<noteq> Some (id_c (cs ! k))" if "k < length cs" "j < k" for k
  proof
    assume "parentId c = Some (id_c (cs ! k))"
    with p that(1) have "k \<in> set ?js" by simp
    from 2 [OF this] that(2) show False by simp
  qed
  with 1 p show ?thesis by simp
qed


lemma build_threads_eq:
  assumes "stored_ok cs"
  shows "build_threads cs
    = (sort_key (\<lambda>i. - date (cs ! i)) (filter (\<lambda>i. \<not> resolves cs (cs ! i)) [0..<length cs]),
       map (\<lambda>j. filter (\<lambda>i. parent_position cs (cs ! i) = Some j) [0..<length cs]) [0..<length cs])"
proof -
  have lp: "lookup_parent (index_comments cs) (cs ! i) = parent_position cs (cs ! i)"
    if "i < length cs" for i
    using assms that by (intro lookup_parent_position) (auto simp: stored_ok_def)
  have "filter (\<lambda>i. lookup_parent (index_comments cs) (cs ! i) = None) [0..<length cs]
      = filter (\<lambda>i. \<not> resolves cs (cs ! i)) [0..<length cs]"
    by (rule filter_cong) (auto simp: lp parent_position_None)
  moreover have "map (\<lambda>j. filter (\<lambda>i. lookup_parent (index_comments cs) (cs ! i) = Some j) [0..<length cs])
          [0..<length cs]
      = map (\<lambda>j. filter (\<lambda>i. parent_position cs (cs ! i) = Some j) [0..<length cs]) [0..<length cs]"
    by (rule map_cong [OF refl], rule filter_cong) (auto simp: lp)
  ultimately show ?thesis
    by (simp add: build_threads_def link_comments_eq)
qed

lemma below_root_unique: "below_root par k i \<Longrightarrow> below_root par k' i \<Longrightarrow> k = k'"
proof (induction k arbitrary: k' i)
  case 0
  then show ?case by (cases k') simp_all
next
  case (Suc k)
  then show ?case by (cases k') (auto split: option.splits)
qed

lemma below_root_levels:
  assumes "\<forall>i j. par i = Some j \<longrightarrow> j \<in> N"
  shows "below_root par k i \<Longrightarrow> i \<in> N \<Longrightarrow> t \<le> k \<Longrightarrow> \<exists>j \<in> N. below_root par t j"
proof (induction k arbitrary: i)
  case 0
  then show ?case by auto
next
  case (Suc k)
  show ?case
  proof (cases "t = Suc k")
    case True
    with Suc.prems show ?thesis by blast
  next
    case False
    with Suc.prems have t: "t \<le> k" by simp
    from Suc.prems(1) obtain j where j: "par i = Some j" "below_root par k j"
      by (auto split: option.splits)
    from assms j(1) have "j \<in> N" by blast
    from Suc.IH [OF j(2) this t] show ?thesis .
  qed
qed

lemma below_root_bound:
  assumes closed: "\<And>i j. par i = Some j \<Longrightarrow> j \<in> N" and fin: "finite N"
    and k: "below_root par k i" and i: "i \<in> N"
  shows "k < card N"
proof -
  have "\<exists>j. j \<in> N \<and> below_root par t j" if "t \<le> k" for t
    using below_root_levels [of par N k i t] closed k i that by blast
  then obtain f where f: "\<And>t. t \<le> k \<Longrightarrow> f t \<in> N \<and> below_root par t (f t)"
    by metis
  have "inj_on f {..k}"
    by (rule inj_onI) (metis f below_root_unique atMost_iff)
  moreover have "f ` {..k} \<subseteq> N"
    using f by auto
  ultimately have "card {..k} \<le> card N"
    using fin by (rule card_inj_on_le)
  then show ?thesis by simp
qed

lemma those_map_Some:
  "(\<And>x. x \<in> set xs \<Longrightarrow> g x \<noteq> None) \<Longrightarrow> those (map g xs) = Some (map (\<lambda>x. the (g x)) xs)"
  by (induction xs) (auto split: option.splits)

lemma index_comments_range: "index_comments cs p = Some j \<Longrightarrow> j < length cs"
proof -
  assume a: "index_comments cs p = Some j"
  let ?js = "filter (\<lambda>j. id_c (cs ! j) = p) [0..<length cs]"
  from a have "?js \<noteq> []" "j = last ?js"
    by (simp_all add: index_comments_eq split: if_splits)
  then have "j \<in> set ?js" by (metis last_in_set)
  then show ?thesis by simp
qed

lemma index_comments_dom: "dom (index_comments cs) = id_c ` set cs"
proof -
  have "index_comments cs p \<noteq> None \<longleftrightarrow> p \<in> id_c ` set cs" for p
    by (force simp: index_comments_eq filter_empty_conv in_set_conv_nth)
  then show ?thesis by (auto simp: dom_def)
qed

lemma lookup_parent_range: "lookup_parent (index_comments cs) c = Some j \<Longrightarrow> j < length cs"
  by (cases "parentId c") (auto simp: lookup_parent_def dest: index_comments_range split: if_splits)

lemma build_threads_props:
  assumes ok: "stored_ok cs" and b: "build_threads cs = (roots, replies)"
  shows "roots = sort_key (\<lambda>i. - date (cs ! i)) (filter (\<lambda>i. \<not> resolves cs (cs ! i)) [0..<length cs])"
    and "replies = map (\<lambda>j. filter (\<lambda>i. parent_position cs (cs ! i) = Some j) [0..<length cs])
                     [0..<length cs]"
    and "set roots = {i. i < length cs \<and> \<not> resolves cs (cs ! i)}"
    and "distinct roots"
    and "sorted_wrt (\<lambda>i j. date (cs ! j) \<le> date (cs ! i)) roots"
    and "\<forall>i < length cs. resolves cs (cs ! i) \<longrightarrow>
           (\<exists>j < length cs. parentId (cs ! i) = Some (id_c (cs ! j)) \<and> i \<in> set (replies ! j)
              \<and> (\<forall>k < length cs. k \<noteq> j \<longrightarrow> i \<notin> set (replies ! k)) \<and> i \<notin> set roots)"
    and "\<forall>j < length cs. sorted_wrt (<) (replies ! j)"
proof -
  from build_threads_eq [OF ok] b
  show roots: "roots = sort_key (\<lambda>i. - date (cs ! i)) (filter (\<lambda>i. \<not> resolves cs (cs ! i)) [0..<length cs])"
    and replies: "replies = map (\<lambda>j. filter (\<lambda>i. parent_position cs (cs ! i) = Some j) [0..<length cs])
                     [0..<length cs]"
    by simp_all
  show set_roots: "set roots = {i. i < length cs \<and> \<not> resolves cs (cs ! i)}"
    unfolding roots by auto
  show "distinct roots"
    unfolding roots by simp
  have "sorted (map (\<lambda>i. - date (cs ! i)) roots)"
    unfolding roots by (rule sorted_sort_key)
  then show "sorted_wrt (\<lambda>i j. date (cs ! j) \<le> date (cs ! i)) roots"
    by (simp add: sorted_map)
  have nth: "replies ! j = filter (\<lambda>i. parent_position cs (cs ! i) = Some j) [0..<length cs]"
    if "j < length cs" for j
    using that by (simp add: replies)
  show "\<forall>i < length cs. resolves cs (cs ! i) \<longrightarrow>
           (\<exists>j < length cs. parentId (cs ! i) = Some (id_c (cs ! j)) \<and> i \<in> set (replies ! j)
              \<and> (\<forall>k < length cs. k \<noteq> j \<longrightarrow> i \<notin> set (replies ! k)) \<and> i \<notin> set roots)"
  proof (intro allI impI)
    fix i assume i: "i < length cs" and r: "resolves cs (cs ! i)"
    then obtain j where j: "parent_position cs (cs ! i) = Some j"
      using parent_position_None [of cs "cs ! i"] by auto
    from parent_position_Some [OF j] have "j < length cs" "parentId (cs ! i) = Some (id_c (cs ! j))"
      by simp_all
    moreover from i j \<open>j < length cs\<close> have "i \<in> set (replies ! j)"
      by (simp add: nth)
    moreover from j have "\<forall>k < length cs. k \<noteq> j \<longrightarrow> i \<notin> set (replies ! k)"
      by (simp add: nth)
    moreover from r have "i \<notin> set roots"
      by (simp add: set_roots)
    ultimately show "\<exists>j < length cs. parentId (cs ! i) = Some (id_c (cs ! j)) \<and> i \<in> set (replies ! j)
              \<and> (\<forall>k < length cs. k \<noteq> j \<longrightarrow> i \<notin> set (replies ! k)) \<and> i \<notin> set roots"
      by blast
  qed
  show "\<forall>j < length cs. sorted_wrt (<) (replies ! j)"
    by (simp add: nth sorted_wrt_filter)
qed


lemma example_forum_threads:
  "get_comments example_forum (Some ''m1'')
    = \<lparr>status = 200,
       body = Threads
         [Thread (example_comment ''D'' None 40) [],
          Thread (example_comment ''A'' None 10)
            [Thread (example_comment ''B'' (Some ''A'') 20)
               [Thread (example_comment ''C'' (Some ''B'') 30) []]]]
         Map.empty\<rparr>"
  by (simp add: get_comments_def example_forum_def array_at_def build_threads_def
        link_comments_def link_step_def lookup_parent_def index_comments_def truthy_str_def
        example_comment_def enumerate_simps json_comment_def Let_def)

lemma those_map_all2:
  "those (map g xs) = Some ys \<Longrightarrow> list_all2 (\<lambda>x y. g x = Some y) xs ys"
proof (induction xs arbitrary: ys)
  case Nil
  then show ?case by simp
next
  case (Cons x xs)
  then show ?case by (auto split: option.splits)
qed

lemma render_thread_of: "render f cs replies i = Some t \<Longrightarrow> thread_of cs replies i t"
proof (induction f arbitrary: i t)
  case 0
  then show ?case by simp
next
  case (Suc f)
  from Suc.prems obtain ts where ts: "those (map (render f cs replies) (replies ! i)) = Some ts"
    and t: "t = Thread (json_comment (cs ! i)) ts"
    by (auto split: option.splits)
  from those_map_all2 [OF ts] have "list_all2 (\<lambda>x y. render f cs replies x = Some y) (replies ! i) ts" .
  then have "list_all2 (thread_of cs replies) (replies ! i) ts"
    by (rule list_all2_mono) (rule Suc.IH)
  with t show ?case by simp
qed

lemma render_Some:
  assumes closed: "\<And>i j. par i = Some j \<Longrightarrow> j \<in> N" and fin: "finite N"
    and kids: "\<And>i c. i \<in> N \<Longrightarrow> c \<in> set (replies ! i) \<Longrightarrow> c \<in> N \<and> par c = Some i"
  shows "below_root par k i \<Longrightarrow> i \<in> N \<Longrightarrow> card N \<le> k + f
    \<Longrightarrow> render f cs replies i \<noteq> None"
proof (induction f arbitrary: k i)
  case 0
  with below_root_bound [OF closed fin "0.prems"(1,2)] show ?case by simp
next
  case (Suc f)
  have "render f cs replies c \<noteq> None" if "c \<in> set (replies ! i)" for c
  proof -
    from kids [OF Suc.prems(2) that] have c: "c \<in> N" "par c = Some i" by simp_all
    with Suc.prems(1) have "below_root par (Suc k) c" by simp
    from Suc.IH [OF this c(1)] Suc.prems(3) show ?thesis by auto
  qed
  then show ?case
    by (simp add: those_map_Some)
qed

lemma render_roots:
  assumes "build_threads cs = (roots, replies)"
  shows "\<exists>ts. those (map (render (length cs) cs replies) roots) = Some ts
           \<and> list_all2 (thread_of cs replies) roots ts"
proof -
  define par where "par i = (if i < length cs then lookup_parent (index_comments cs) (cs ! i) else None)" for i
  have "filter (\<lambda>i. lookup_parent (index_comments cs) (cs ! i) = v) [0..<length cs]
      = filter (\<lambda>i. par i = v) [0..<length cs]" for v
    by (rule filter_cong) (auto simp: par_def)
  with assms have roots: "set roots = {i. i < length cs \<and> par i = None}"
    and replies: "replies = map (\<lambda>j. filter (\<lambda>i. par i = Some j) [0..<length cs]) [0..<length cs]"
    by (auto simp: build_threads_def link_comments_eq)
  have closed: "\<And>i j. par i = Some j \<Longrightarrow> j \<in> {..<length cs}"
    by (auto simp: par_def dest: lookup_parent_range split: if_splits)
  have kids: "\<And>i c. i \<in> {..<length cs} \<Longrightarrow> c \<in> set (replies ! i) \<Longrightarrow> c \<in> {..<length cs} \<and> par c = Some i"
    by (simp add: replies)
  have r: "render (length cs) cs replies i \<noteq> None" if "i \<in> set roots" for i
  proof -
    from that roots have "below_root par 0 i" "i \<in> {..<length cs}" by simp_all
    from render_Some [of par "{..<length cs}" replies 0 i "length cs" cs, OF closed _ kids this]
    show ?thesis by simp
  qed
  then have t: "those (map (render (length cs) cs replies) roots)
      = Some (map (\<lambda>i. the (render (length cs) cs replies i)) roots)"
    by (intro those_map_Some) auto
  from those_map_all2 [OF t]
  have "list_all2 (thread_of cs replies) roots (map (\<lambda>i. the (render (length cs) cs replies i)) roots)"
    by (rule list_all2_mono) (rule render_thread_of)
  with t show ?thesis by blast
qed

lemma thread_of_heads:
  "list_all2 (thread_of cs replies) is ts \<Longrightarrow> map thread_comment ts = map (\<lambda>i. json_comment (cs ! i)) is"
proof (induction "is" ts rule: list_all2_induct)
  case Nil
  show ?case by simp
next
  case (Cons i "is" t ts)
  then show ?case by (cases t) simp
qed

lemma thread_of_unique: "thread_of cs replies i t \<Longrightarrow> thread_of cs replies i t' \<Longrightarrow> t = t'"
proof (induction t arbitrary: i t')
  case (Thread c ts)
  obtain c' ts' where t': "t' = Thread c' ts'" by (cases t')
  from Thread.prems t' have c: "c = c'"
    and 1: "list_all2 (thread_of cs replies) (replies ! i) ts"
    and 2: "list_all2 (thread_of cs replies) (replies ! i) ts'"
    by simp_all
  from 1 2 have len: "length ts = length ts'"
    by (simp add: list_all2_lengthD [symmetric])
  have "ts ! n = ts' ! n" if "n < length ts" for n
  proof -
    from that 1 have "thread_of cs replies (replies ! i ! n) (ts ! n)"
      by (simp add: list_all2_conv_all_nth)
    moreover from that len 2 have "thread_of cs replies (replies ! i ! n) (ts' ! n)"
      by (simp add: list_all2_conv_all_nth)
    moreover from that have "ts ! n \<in> set ts" by simp
    ultimately show ?thesis by (rule Thread.IH [rotated])
  qed
  with len have "ts = ts'" by (simp add: list_eq_iff_nth_eq)
  with c t' show ?case by simp
qed

lemma get_comments_ok:
  assumes "m \<noteq> []" and "array_at (comments db) m = Some cs"
    and "build_threads cs = (roots, replies)"
  shows "\<exists>ts. get_comments db (Some m)
            = \<lparr>status = 200, body = Threads ts (upvotes db |` (id_c ` set cs))\<rparr>
          \<and> list_all2 (thread_of cs replies) roots ts
          \<and> map thread_comment ts = map (\<lambda>i. json_comment (cs ! i)) roots"
proof -
  from render_roots [OF assms(3)] obtain ts where
    ts: "those (map (render (length cs) cs replies) roots) = Some ts"
    "list_all2 (thread_of cs replies) roots ts"
    by blast
  from ts(2) have "map thread_comment ts = map (\<lambda>i. json_comment (cs ! i)) roots"
    by (rule thread_of_heads)
  with assms ts show ?thesis
    by (simp add: get_comments_def Let_def index_comments_dom)
qed

lemma get_comments_inherited:
  "m \<noteq> [] \<Longrightarrow> array_at (comments db) m = None \<Longrightarrow>
    get_comments db (Some m) = \<lparr>status = 500, body = Thrown ''TypeError''\<rparr>"
  by (simp add: get_comments_def)



text \<open>
  Claim C3. For a stored list of comments of one movie, the thread builder makes a root of
  every comment whose parent id does not resolve to a comment of the list (it is null or
  orphaned) and puts every other comment into the reply list of the comment its parent id
  resolves to (the last comment of the list with that id), and into no other list. The roots
  are returned newest first; a reply list holds its comments in the order of the list. For
  a movie whose list is read, the response has status 200 and holds, for the roots in that
  order, the thread of each: the comment, and below it the threads of its reply list in the
  list's order. For A, B (parent A), C (parent B) and a later root D the response holds D
  and then A with B below it and C below B.
\<close>

theorem C3_thread_builder:
  "(stored_ok cs \<longrightarrow> build_threads cs = (roots, replies) \<longrightarrow>
      roots = sort_key (\<lambda>i. - date (cs ! i)) (filter (\<lambda>i. \<not> resolves cs (cs ! i)) [0..<length cs])
      \<and> replies = map (\<lambda>j. filter (\<lambda>i. parent_position cs (cs ! i) = Some j) [0..<length cs])
                     [0..<length cs]
      \<and> set roots = {i. i < length cs \<and> \<not> resolves cs (cs ! i)}
      \<and> distinct roots
      \<and> sorted_wrt (\<lambda>i j. date (cs ! j) \<le> date (cs ! i)) roots
      \<and> (\<forall>i < length cs. resolves cs (cs ! i) \<longrightarrow>
           (\<exists>j < length cs. parentId (cs ! i) = Some (id_c (cs ! j)) \<and> i \<in> set (replies ! j)
              \<and> (\<forall>k < length cs. k \<noteq> j \<longrightarrow> i \<notin> set (replies ! k)) \<and> i \<notin> set roots))
      \<and> (\<forall>j < length cs. sorted_wrt (<) (replies ! j)))
   \<and> (m \<noteq> [] \<longrightarrow> array_at (comments db) m = Some cs \<longrightarrow> build_threads cs = (roots, replies) \<longrightarrow>
        (\<exists>ts. get_comments db (Some m)
            = \<lparr>status = 200, body = Threads ts (upvotes db |` (id_c ` set cs))\<rparr>
          \<and> list_all2 (thread_of cs replies) roots ts
          \<and> map thread_comment ts = map (\<lambda>i. json_comment (cs ! i)) roots))
   \<and> get_comments example_forum (Some ''m1'')
       = \<lparr>status = 200,
          body = Threads
            [Thread (example_comment ''D'' None 40) [],
             Thread (example_comment ''A'' None 10)
               [Thread (example_comment ''B'' (Some ''A'') 20)
                  [Thread (example_comment ''C'' (Some ''B'') 30) []]]]
            Map.empty\<rparr>"
  using build_threads_props [of cs roots replies] get_comments_ok [of m db cs roots replies]
    example_forum_threads
  by blast

theorem C3_witness:
  "stored_ok [example_comment ''A'' None 10, example_comment ''B'' (Some ''A'') 20,
              example_comment ''O'' (Some ''gone'') 50, example_comment ''D'' None 40]
   \<and> build_threads [example_comment ''A'' None 10, example_comment ''B'' (Some ''A'') 20,
              example_comment ''O'' (Some ''gone'') 50, example_comment ''D'' None 40]
       = ([2, 3, 0], [[1], [], [], []])
   \<and> set [2, 3, 0]
       = {i. i < length [example_comment ''A'' None 10, example_comment ''B'' (Some ''A'') 20,
                         example_comment ''O'' (Some ''gone'') 50, example_comment ''D'' None 40]
             \<and> \<not> resolves [example_comment ''A'' None 10, example_comment ''B'' (Some ''A'') 20,
                            example_comment ''O'' (Some ''gone'') 50, example_comment ''D'' None 40]
                  ([example_comment ''A'' None 10, example_comment ''B'' (Some ''A'') 20,
                    example_comment ''O'' (Some ''gone'') 50, example_comment ''D'' None 40] ! i)}
   \<and> array_at (comments
          \<lparr>comments = [''m1'' \<mapsto> [example_comment ''A'' None 10, example_comment ''B'' (Some ''A'') 20,
              example_comment ''O'' (Some ''gone'') 50, example_comment ''D'' None 40]],
           upvotes = Map.empty\<rparr>) ''m1''
       = Some [example_comment ''A'' None 10, example_comment ''B'' (Some ''A'') 20,
              example_comment ''O'' (Some ''gone'') 50, example_comment ''D'' None 40]
   \<and> (\<exists>ts. get_comments
          \<lparr>comments = [''m1'' \<mapsto> [example_comment ''A'' None 10, example_comment ''B'' (Some ''A'') 20,
              example_comment ''O'' (Some ''gone'') 50, example_comment ''D'' None 40]],
           upvotes = Map.empty\<rparr> (Some ''m1'')
          = \<lparr>status = 200, body = Threads ts Map.empty\<rparr>
        \<and> map thread_comment ts
          = [example_comment ''O'' (Some ''gone'') 50, example_comment ''D'' None 40,
             example_comment ''A'' None 10])"
proof -
  let ?cs = "[example_comment ''A'' None 10, example_comment ''B'' (Some ''A'') 20,
              example_comment ''O'' (Some ''gone'') 50, example_comment ''D'' None 40]"
  let ?db = "\<lparr>comments = [''m1'' \<mapsto> ?cs], upvotes = Map.empty\<rparr>"
  have ok: "stored_ok ?cs"
    by (simp add: stored_ok_def example_comment_def)
  have b: "build_threads ?cs = ([2, 3, 0], [[1], [], [], []])"
    by (simp add: build_threads_def link_comments_def link_step_def lookup_parent_def
          index_comments_def truthy_str_def example_comment_def enumerate_simps)
  have arr: "array_at (comments ?db) ''m1'' = Some ?cs"
    by (simp add: array_at_def)
  have m: "''m1'' \<noteq> []" by simp
  note inst = C3_thread_builder [of ?cs "[2, 3, 0]" "[[1], [], [], []]" "''m1''" ?db]
  note general = inst [THEN conjunct1, THEN mp, OF ok, THEN mp, OF b]
  note served = inst [THEN conjunct2, THEN conjunct1, THEN mp, OF m, THEN mp, OF arr, THEN mp, OF b]
  from general have r: "set [2, 3, 0] = {i. i < length ?cs \<and> \<not> resolves ?cs (?cs ! i)}"
    by (rule conjunct2 [THEN conjunct2, THEN conjunct1])
  from served obtain ts where
    g: "get_comments ?db (Some ''m1'')
      = \<lparr>status = 200, body = Threads ts (upvotes ?db |` (id_c ` set ?cs))\<rparr>"
    and t: "map thread_comment ts = map (\<lambda>i. json_comment (?cs ! i)) [2, 3, 0]"
    by (elim exE conjE)
  from g have g': "get_comments ?db (Some ''m1'') = \<lparr>status = 200, body = Threads ts Map.empty\<rparr>"
    by simp
  from t have t': "map thread_comment ts
          = [example_comment ''O'' (Some ''gone'') 50, example_comment ''D'' None 40,
             example_comment ''A'' None 10]"
    by (simp add: json_comment_def example_comment_def)
  from g' t' have "\<exists>ts. get_comments ?db (Some ''m1'') = \<lparr>status = 200, body = Threads ts Map.empty\<rparr>
        \<and> map thread_comment ts
          = [example_comment ''O'' (Some ''gone'') 50, example_comment ''D'' None 40,
             example_comment ''A'' None 10]"
    by (intro exI conjI)
  with ok b r arr show ?thesis
    by (intro conjI)
qed

end
